theory Spec2Isabelle
  imports Complex_Main
begin

section \<open>The translation request pipeline of api.py\<close>

text \<open>
  The development follows \<^verbatim>\<open>api.py\<close>: the helper \<^verbatim>\<open>_translate_batch_on_gpu\<close>, the
  orchestration function \<^verbatim>\<open>translate_texts_with_model\<close> and the endpoint
  \<^verbatim>\<open>translate_texts\<close> with its alias \<^verbatim>\<open>api_translate_texts\<close>. A raised exception is a
  value \<open>Inl e\<close>; when it leaves an endpoint, the client gets HTTP status 500 instead of a
  response. Of the logging, the \<^verbatim>\<open>print\<close> calls that can raise are in the model (see
  below); the wall-clock field \<^verbatim>\<open>processing_time\<close> is left out.
\<close>

subsection \<open>Strings\<close>

text \<open>
  A Python \<^verbatim>\<open>str\<close> is a sequence of Unicode code points, and \<^verbatim>\<open>len\<close> counts code
  points. A string is therefore a list of code points, and \<open>cp\<close> writes an ASCII literal.
\<close>

type_synonym str = "nat list"

definition cp :: "string \<Rightarrow> str" where
  "cp s = map of_char s"

text \<open>
  \<^verbatim>\<open>str.isalpha\<close> and the whitespace that \<^verbatim>\<open>str.strip\<close> removes are decided by the
  interpreter's Unicode database. On ASCII both are fixed (letters \<^verbatim>\<open>A-Z\<close>, \<^verbatim>\<open>a-z\<close>;
  whitespace \<^verbatim>\<open>0x09-0x0D\<close>, \<^verbatim>\<open>0x1C-0x1F\<close>, \<^verbatim>\<open>0x20\<close>); beyond ASCII the database is a
  parameter of the model.
\<close>

record ucd =
  ucd_alpha :: "nat \<Rightarrow> bool"
  ucd_space :: "nat \<Rightarrow> bool"

definition isalpha :: "ucd \<Rightarrow> nat \<Rightarrow> bool" where
  "isalpha U c =
     (if c < 128 then (65 \<le> c \<and> c \<le> 90) \<or> (97 \<le> c \<and> c \<le> 122) else ucd_alpha U c)"

definition isspace :: "ucd \<Rightarrow> nat \<Rightarrow> bool" where
  "isspace U c =
     (if c < 128 then (9 \<le> c \<and> c \<le> 13) \<or> (28 \<le> c \<and> c \<le> 32) else ucd_space U c)"

definition strip :: "ucd \<Rightarrow> str \<Rightarrow> str" where
  "strip U t = rev (dropWhile (isspace U) (rev (dropWhile (isspace U) t)))"

subsection \<open>Requests, responses, exceptions\<close>

record TranslationRequest =
  texts :: "str list"
  source_language :: str
  target_language :: str
  request_id :: "str option"

datatype exn = IndexError | UnicodeEncodeError

text \<open>
  The endpoint returns a dictionary with the keys \<^verbatim>\<open>translations\<close>,
  \<^verbatim>\<open>processing_time\<close> and, from its exception handler only, \<^verbatim>\<open>error\<close>, which holds
  \<^verbatim>\<open>str(e)\<close> for the exception caught; the model keeps the exception. A returned dictionary
  is served with HTTP status 200.
\<close>

record TranslationResponse =
  translations_out :: "str list"
  error :: "exn option"

subsection \<open>Printing\<close>

text \<open>
  \<^verbatim>\<open>sys.stdout\<close> encodes in UTF-8 and is strict: \<^verbatim>\<open>print\<close> raises
  \<^verbatim>\<open>UnicodeEncodeError\<close> exactly when the text it writes holds a surrogate code point
  (\<^verbatim>\<open>U+D800\<close> to \<^verbatim>\<open>U+DFFF\<close>), which a \<^verbatim>\<open>str\<close> parsed from JSON can hold. A list is
  printed through \<^verbatim>\<open>repr\<close>, which escapes surrogates, and the message of an exception of
  this program is ASCII; so the only \<^verbatim>\<open>print\<close> calls that can raise are those that
  interpolate a string of the request itself: lines 286, 320, 339, 379 and 436. The
  \<^verbatim>\<open>logger\<close> calls do not raise: \<^verbatim>\<open>logging\<close> handles the errors of its handlers.
\<close>

definition encodable :: "str \<Rightarrow> bool" where
  "encodable t = list_all (\<lambda>c. c < 55296 \<or> 57343 < c) t"

subsection \<open>The translation engine\<close>

text \<open>
  Preprocessing, tokenizing, \<^verbatim>\<open>model.generate\<close>, decoding and postprocessing (lines
  160 to 217) are the external engine. One invocation on a batch, under the alarm that line
  169 sets, ends in one of three ways: it returns a list of results, it raises, or the alarm
  raises \<^verbatim>\<open>TimeoutError\<close>. The engine has process-wide state (device, caches), threaded
  here as a value of type \<open>'s\<close>.
\<close>

datatype engine_outcome = Returns "str list" | Raises | TimesOut

type_synonym 's engine = "'s \<Rightarrow> str list \<Rightarrow> str \<Rightarrow> str \<Rightarrow> engine_outcome \<times> 's"

subsection \<open>\<^verbatim>\<open>_translate_batch_on_gpu\<close>\<close>

text \<open>
  Lines 223 and 224: \<^verbatim>\<open>while len(results) < len(batch_texts):
  results.append(batch_texts[len(results)])\<close>.
\<close>

function pad_results :: "str list \<Rightarrow> str list \<Rightarrow> str list" where
  "pad_results results batch_texts =
     (if length results < length batch_texts
      then pad_results (results @ [batch_texts ! length results]) batch_texts
      else results)"
  by pat_completeness auto
termination
  by (relation "measure (\<lambda>(results, batch_texts). length batch_texts - length results)") auto

text \<open>Lines 219 to 225: the repair of a result of the wrong length.\<close>

definition ensure_count :: "str list \<Rightarrow> str list \<Rightarrow> str list" where
  "ensure_count results batch_texts =
     (if length results \<noteq> length batch_texts
      then take (length batch_texts) (pad_results results batch_texts)
      else results)"

text \<open>
  The whole function: the early return on an empty batch (line 154), the engine, the
  repair, and the two handlers (lines 245 and 257), which both return \<^verbatim>\<open>batch_texts\<close>.
\<close>

definition translate_batch_on_gpu ::
  "'s engine \<Rightarrow> 's \<Rightarrow> str list \<Rightarrow> str \<Rightarrow> str \<Rightarrow> str list \<times> 's" where
  "translate_batch_on_gpu eng s batch_texts src_lang tgt_lang =
     (if length batch_texts = 0 then ([], s)
      else case eng s batch_texts src_lang tgt_lang of
             (Returns results, s') \<Rightarrow> (ensure_count results batch_texts, s')
           | (TimesOut, s') \<Rightarrow> (batch_texts, s')
           | (Raises, s') \<Rightarrow> (batch_texts, s'))"

subsection \<open>\<^verbatim>\<open>translate_texts_with_model\<close>\<close>

definition valid_target_langs :: "str list" where
  "valid_target_langs = map cp
     [''hin_Deva'', ''mar_Deva'', ''tam_Taml'', ''tel_Telu'', ''guj_Gujr'', ''kan_Knda'',
      ''ben_Beng'', ''asm_Beng'', ''brx_Deva'', ''doi_Deva'', ''eng_Latn'', ''gom_Deva'',
      ''kas_Arab'', ''kas_Deva'', ''mai_Deva'', ''mal_Mlym'', ''mni_Beng'', ''mni_Mtei'',
      ''nep_Deva'', ''npi_Deva'', ''ory_Orya'', ''pan_Guru'', ''san_Deva'', ''sat_Olck'',
      ''snd_Arab'', ''snd_Deva'', ''urd_Arab'']"

definition tgt_lang_map :: "(str \<times> str) list" where
  "tgt_lang_map = map (\<lambda>(k, v). (cp k, cp v))
     [(''hi'', ''hin_Deva''), (''mr'', ''mar_Deva''), (''ta'', ''tam_Taml''), (''te'', ''tel_Telu''),
      (''gu'', ''guj_Gujr''), (''kn'', ''kan_Knda''), (''ben'', ''ben_Beng''), (''bn'', ''ben_Beng''),
      (''asm'', ''asm_Beng''), (''brx'', ''brx_Deva''), (''doi'', ''doi_Deva''), (''eng'', ''eng_Latn''),
      (''gom'', ''gom_Deva''), (''kas'', ''kas_Arab''), (''kas_Deva'', ''kas_Deva''), (''mai'', ''mai_Deva''),
      (''mal'', ''mal_Mlym''), (''mni'', ''mni_Beng''), (''mni_Mtei'', ''mni_Mtei''), (''nep'', ''nep_Deva''),
      (''npi'', ''npi_Deva''), (''ory'', ''ory_Orya''), (''pan'', ''pan_Guru''), (''san'', ''san_Deva''),
      (''sat'', ''sat_Olck''), (''snd'', ''snd_Arab''), (''snd_Deva'', ''snd_Deva''), (''tel'', ''tel_Telu''),
      (''urd'', ''urd_Arab''), (''as'', ''asm_Beng''), (''en'', ''eng_Latn''), (''ks'', ''kas_Arab''),
      (''ml'', ''mal_Mlym''), (''ne'', ''nep_Deva''), (''or'', ''ory_Orya''), (''pa'', ''pan_Guru''),
      (''sa'', ''san_Deva''), (''sd'', ''snd_Arab''), (''ur'', ''urd_Arab'')]"

text \<open>
  Lines 300 to 317: the target tag, \<^verbatim>\<open>None\<close> when \<^verbatim>\<open>dict.get\<close> finds no key. Line 319,
  \<^verbatim>\<open>if not tgt_lang\<close>, is true for \<^verbatim>\<open>None\<close> and for the empty string.
\<close>

definition tgt_lang_of :: "str \<Rightarrow> str option" where
  "tgt_lang_of target_language' =
     (if target_language' \<in> set valid_target_langs then Some target_language'
      else map_of tgt_lang_map target_language')"

fun falsy :: "str option \<Rightarrow> bool" where
  "falsy None = True"
| "falsy (Some t) = (t = [])"

text \<open>Lines 331 to 333: the condition under which a stripped text is submitted.\<close>

definition passes_filter :: "ucd \<Rightarrow> str \<Rightarrow> bool" where
  "passes_filter U text \<longleftrightarrow>
     length text > 0 \<and> list_ex (isalpha U) text \<and> length text \<le> 1000"

text \<open>
  Lines 326 to 339: the loop over \<^verbatim>\<open>enumerate(texts_to_translate)\<close>, with the two lists
  it appends to.
\<close>

fun filter_loop :: "ucd \<Rightarrow> nat \<Rightarrow> str list \<Rightarrow> str list \<times> nat list \<Rightarrow> str list \<times> nat list" where
  "filter_loop U i [] acc = acc"
| "filter_loop U i (t # ts) (filtered_texts, text_indices) =
     (let text = strip U t in
      if passes_filter U text
      then filter_loop U (Suc i) ts (filtered_texts @ [text], text_indices @ [i])
      else filter_loop U (Suc i) ts (filtered_texts, text_indices))"

definition MODEL_BATCH_SIZE :: nat where
  "MODEL_BATCH_SIZE = 24"

text \<open>
  Lines 351 and 352: the slices \<^verbatim>\<open>filtered_texts[i:i + batch_size]\<close> for
  \<^verbatim>\<open>i in range(0, len(filtered_texts), batch_size)\<close>, in the order the loop visits them.
\<close>

function sub_batches :: "str list \<Rightarrow> nat \<Rightarrow> str list list" where
  "sub_batches filtered_texts i =
     (if i < length filtered_texts
      then take MODEL_BATCH_SIZE (drop i filtered_texts)
             # sub_batches filtered_texts (i + MODEL_BATCH_SIZE)
      else [])"
  by pat_completeness auto
termination
  by (relation "measure (\<lambda>(filtered_texts, i). length filtered_texts - i)")
     (auto simp: MODEL_BATCH_SIZE_def)

text \<open>
  Lines 355 to 361: the loop body, run over the slices. The call is wrapped in a
  \<^verbatim>\<open>try\<close> whose handler extends \<^verbatim>\<open>all_translations\<close> by \<^verbatim>\<open>sub_batch\<close>; since
  \<^verbatim>\<open>_translate_batch_on_gpu\<close> handles the engine's exceptions itself and returns
  \<^verbatim>\<open>batch_texts\<close>, the same list, that handler adds no branch.
\<close>

fun run_chunks ::
  "'s engine \<Rightarrow> 's \<Rightarrow> str \<Rightarrow> str \<Rightarrow> str list list \<Rightarrow> str list \<Rightarrow> str list" where
  "run_chunks eng s src_lang tgt_lang [] all_translations = all_translations"
| "run_chunks eng s src_lang tgt_lang (sub_batch # rest) all_translations =
     (case translate_batch_on_gpu eng s sub_batch src_lang tgt_lang of
        (translations_chunk, s') \<Rightarrow>
          run_chunks eng s' src_lang tgt_lang rest (all_translations @ translations_chunk))"

text \<open>
  Lines 364 to 366: the assignments \<^verbatim>\<open>final_results[orig_idx] = translation\<close> over the
  zipped pairs. An assignment out of range raises \<^verbatim>\<open>IndexError\<close>.
\<close>

fun reconstruct :: "str list \<Rightarrow> (nat \<times> str) list \<Rightarrow> exn + str list" where
  "reconstruct final_results [] = Inr final_results"
| "reconstruct final_results ((orig_idx, translation) # rest) =
     (if orig_idx < length final_results
      then reconstruct (final_results[orig_idx := translation]) rest
      else Inl IndexError)"

text \<open>
  Line 339, in the \<^verbatim>\<open>else\<close> branch of the filter loop: a stripped text that is not
  submitted and is not empty is printed, cut to 50 code points. The function tells whether
  one of these prints raises, which ends the loop.
\<close>

fun filter_loop_raises :: "ucd \<Rightarrow> str list \<Rightarrow> bool" where
  "filter_loop_raises U [] = False"
| "filter_loop_raises U (t # ts) =
     (let text = strip U t in
      if passes_filter U text then filter_loop_raises U ts
      else if length text > 0
           then (if encodable (take 50 text) then filter_loop_raises U ts else True)
           else filter_loop_raises U ts)"

text \<open>
  The body of the \<^verbatim>\<open>try\<close> of lines 287 to 368, with the \<^verbatim>\<open>print\<close> of line 320
  (the unknown target language) and the one of line 339.
\<close>

definition translate_texts_with_model_try ::
  "'s engine \<Rightarrow> 's \<Rightarrow> ucd \<Rightarrow> str list \<Rightarrow> str \<Rightarrow> exn + str list" where
  "translate_texts_with_model_try eng s U texts_to_translate target_language' =
     (let src_lang = cp ''eng_Latn'';
          tgt_lang = tgt_lang_of target_language'
      in if falsy tgt_lang
         then (if encodable target_language' then Inr texts_to_translate
               else Inl UnicodeEncodeError)
         else if filter_loop_raises U texts_to_translate then Inl UnicodeEncodeError
         else
           let (filtered_texts, text_indices) = filter_loop U 0 texts_to_translate ([], [])
           in if filtered_texts = [] then Inr texts_to_translate
              else
                let all_translations =
                      run_chunks eng s src_lang (the tgt_lang) (sub_batches filtered_texts 0) []
                in reconstruct texts_to_translate (zip text_indices all_translations))"

text \<open>
  The function: the \<^verbatim>\<open>print\<close> of line 286, which stands before the \<^verbatim>\<open>try\<close> and
  writes \<^verbatim>\<open>target_language\<close>, then the \<^verbatim>\<open>try\<close> with the handler of lines 370 to
  372, which returns the input list.
\<close>

definition translate_texts_with_model ::
  "'s engine \<Rightarrow> 's \<Rightarrow> ucd \<Rightarrow> str list \<Rightarrow> str \<Rightarrow> exn + str list" where
  "translate_texts_with_model eng s U texts_to_translate target_language' =
     (if encodable target_language'
      then Inr (case translate_texts_with_model_try eng s U texts_to_translate target_language' of
                  Inl e \<Rightarrow> texts_to_translate
                | Inr final_results \<Rightarrow> final_results)
      else Inl UnicodeEncodeError)"

subsection \<open>The endpoint \<^verbatim>\<open>translate_texts\<close>\<close>

text \<open>
  The body of the \<^verbatim>\<open>try\<close> of lines 385 to 424, with the length check of lines 402 to
  408 (the \<^verbatim>\<open>isinstance\<close> check of line 398 always passes: the callee returns a list).
\<close>

definition translate_texts_try ::
  "'s engine \<Rightarrow> 's \<Rightarrow> ucd \<Rightarrow> TranslationRequest \<Rightarrow> exn + TranslationResponse" where
  "translate_texts_try eng s U request =
     (let texts_to_translate = texts request
      in case translate_texts_with_model eng s U texts_to_translate (target_language request) of
           Inl e \<Rightarrow> Inl e
         | Inr batch_results \<Rightarrow>
             let batch_results =
                   (if length batch_results \<noteq> length texts_to_translate
                    then (if length batch_results < length texts_to_translate
                          then batch_results @ drop (length batch_results) texts_to_translate
                          else take (length texts_to_translate) batch_results)
                    else batch_results)
             in Inr \<lparr>translations_out = batch_results, error = None\<rparr>)"

text \<open>The \<^verbatim>\<open>try\<close> statement of lines 385 to 430, with the handler of line 426.\<close>

definition translate_texts_try_except ::
  "'s engine \<Rightarrow> 's \<Rightarrow> ucd \<Rightarrow> TranslationRequest \<Rightarrow> TranslationResponse" where
  "translate_texts_try_except eng s U request =
     (case translate_texts_try eng s U request of
        Inl e \<Rightarrow> \<lparr>translations_out = texts request, error = Some e\<rparr>
      | Inr response_data \<Rightarrow> response_data)"

text \<open>
  The endpoint: the \<^verbatim>\<open>print\<close> of line 379, which stands before the \<^verbatim>\<open>try\<close> and
  writes \<^verbatim>\<open>source_language\<close> and \<^verbatim>\<open>target_language\<close>, then the \<^verbatim>\<open>try\<close>
  statement. An exception of that \<^verbatim>\<open>print\<close> leaves the endpoint.
\<close>

definition translate_texts ::
  "'s engine \<Rightarrow> 's \<Rightarrow> ucd \<Rightarrow> TranslationRequest \<Rightarrow> exn + TranslationResponse" where
  "translate_texts eng s U request =
     (if encodable (source_language request) \<and> encodable (target_language request)
      then Inr (translate_texts_try_except eng s U request)
      else Inl UnicodeEncodeError)"

text \<open>
  The alias endpoint of lines 432 to 444: the \<^verbatim>\<open>print\<close> of line 436, before the
  \<^verbatim>\<open>try\<close>, writes \<^verbatim>\<open>target_language\<close>; the call of \<^verbatim>\<open>translate_texts\<close> is inside
  the \<^verbatim>\<open>try\<close>, and the handler answers with the request's texts and the error.
\<close>

definition api_translate_texts ::
  "'s engine \<Rightarrow> 's \<Rightarrow> ucd \<Rightarrow> TranslationRequest \<Rightarrow> exn + TranslationResponse" where
  "api_translate_texts eng s U request =
     (if encodable (target_language request)
      then (case translate_texts eng s U request of
              Inl e \<Rightarrow> Inr \<lparr>translations_out = texts request, error = Some e\<rparr>
            | Inr response_data \<Rightarrow> Inr response_data)
      else Inl UnicodeEncodeError)"

subsection \<open>Notions used in the statements\<close>

text \<open>
  The classification of one input text: line 329 followed by the condition of lines 331
  to 333. A text that is not translatable is a passthrough text.
\<close>

definition translatable :: "ucd \<Rightarrow> str \<Rightarrow> bool" where
  "translatable U t = passes_filter U (strip U t)"

text \<open>
  The engine state in which the loop of line 351 reaches its \<open>j\<close>-th chunk, and the
  outcome of the engine's invocation on that chunk.
\<close>

fun engine_state_before ::
  "'s engine \<Rightarrow> 's \<Rightarrow> str \<Rightarrow> str \<Rightarrow> str list list \<Rightarrow> nat \<Rightarrow> 's" where
  "engine_state_before eng s src_lang tgt_lang [] j = s"
| "engine_state_before eng s src_lang tgt_lang (sub_batch # rest) 0 = s"
| "engine_state_before eng s src_lang tgt_lang (sub_batch # rest) (Suc j) =
     engine_state_before eng (snd (translate_batch_on_gpu eng s sub_batch src_lang tgt_lang))
       src_lang tgt_lang rest j"

definition chunk_outcome ::
  "'s engine \<Rightarrow> 's \<Rightarrow> str \<Rightarrow> str \<Rightarrow> str list list \<Rightarrow> nat \<Rightarrow> engine_outcome" where
  "chunk_outcome eng s src_lang tgt_lang chunks j =
     fst (eng (engine_state_before eng s src_lang tgt_lang chunks j) (chunks ! j) src_lang tgt_lang)"

text \<open>The positions that chunk \<open>j\<close> occupies in \<^verbatim>\<open>all_translations\<close>.\<close>

definition chunk_slice :: "str list list \<Rightarrow> nat \<Rightarrow> str list \<Rightarrow> str list" where
  "chunk_slice chunks j all_translations =
     take (length (chunks ! j)) (drop (length (concat (take j chunks))) all_translations)"

text \<open>
  The values of the variables \<^verbatim>\<open>filtered_texts\<close>, \<^verbatim>\<open>text_indices\<close> and
  \<^verbatim>\<open>all_translations\<close> of \<^verbatim>\<open>translate_texts_with_model\<close>, as functions of its inputs.
\<close>

definition filtered_texts :: "ucd \<Rightarrow> str list \<Rightarrow> str list" where
  "filtered_texts U texts_to_translate = fst (filter_loop U 0 texts_to_translate ([], []))"

definition text_indices :: "ucd \<Rightarrow> str list \<Rightarrow> nat list" where
  "text_indices U texts_to_translate = snd (filter_loop U 0 texts_to_translate ([], []))"

definition all_translations ::
  "'s engine \<Rightarrow> 's \<Rightarrow> ucd \<Rightarrow> str \<Rightarrow> str list \<Rightarrow> str list" where
  "all_translations eng s U tgt_lang texts_to_translate =
     run_chunks eng s (cp ''eng_Latn'') tgt_lang
       (sub_batches (filtered_texts U texts_to_translate) 0) []"

subsection \<open>Sample inputs\<close>

text \<open>
  A Unicode database that knows the Devanagari letters and the no-break space, a few
  engines, and the request of the end-to-end scenario with whitespace around its first
  text. They instantiate the theorems below.
\<close>

definition sample_ucd :: ucd where
  "sample_ucd = \<lparr>ucd_alpha = (\<lambda>c. 2308 \<le> c \<and> c \<le> 2361), ucd_space = (\<lambda>c. c = 160)\<rparr>"

definition failing_engine :: "unit engine" where
  "failing_engine u batch src_lang tgt_lang = (Raises, u)"

definition rev_engine :: "unit engine" where
  "rev_engine u batch src_lang tgt_lang = (Returns (map rev batch), u)"

definition short_engine :: "unit engine" where
  "short_engine u batch src_lang tgt_lang = (Returns (take 1 (map rev batch)), u)"

definition long_engine :: "unit engine" where
  "long_engine u batch src_lang tgt_lang = (Returns (map rev batch @ [cp ''extra'']), u)"

text \<open>An engine that raises on its first invocation and works afterwards.\<close>

definition flaky_engine :: "nat engine" where
  "flaky_engine n batch src_lang tgt_lang =
     (if n = 0 then Raises else Returns (map rev batch), Suc n)"

definition sample_request :: TranslationRequest where
  "sample_request =
     \<lparr>texts = [cp ''  Hello world '', cp ''123'', cp ''Welcome''],
      source_language = cp ''en'', target_language = cp ''hi'', request_id = None\<rparr>"

text \<open>Twenty-five filtered texts, \<^verbatim>\<open>Aa\<close> to \<^verbatim>\<open>Yy\<close>: one full chunk and one more text.\<close>

definition sample_filtered :: "str list" where
  "sample_filtered = map (\<lambda>n. [65 + n, 97 + n]) [0..<25]"

section \<open>Properties\<close>

subsection \<open>The batch function, the slices and the chunk loop\<close>

declare pad_results.simps [simp del]
declare sub_batches.simps [simp del]

lemma pad_results_eq: "pad_results results batch_texts = results @ drop (length results) batch_texts"
proof (induction results batch_texts rule: pad_results.induct)
  case (1 results batch_texts)
  show ?case
  proof (cases "length results < length batch_texts")
    case True
    then have "drop (length results) batch_texts
                 = batch_texts ! length results # drop (Suc (length results)) batch_texts"
      by (simp add: Cons_nth_drop_Suc)
    with True 1 show ?thesis
      by (subst pad_results.simps) simp
  next
    case False
    then show ?thesis
      by (subst pad_results.simps) simp
  qed
qed

lemma ensure_count_eq:
  "ensure_count results batch_texts
     = take (length batch_texts) results @ drop (length results) batch_texts"
  by (simp add: ensure_count_def pad_results_eq)

lemma length_ensure_count: "length (ensure_count results batch_texts) = length batch_texts"
  by (simp add: ensure_count_eq)

lemma length_translate_batch_on_gpu:
  "length (fst (translate_batch_on_gpu eng s batch_texts src tgt)) = length batch_texts"
  by (simp add: translate_batch_on_gpu_def length_ensure_count
           split: prod.splits engine_outcome.splits)

lemma run_chunks_acc:
  "run_chunks eng s src tgt chunks acc = acc @ run_chunks eng s src tgt chunks []"
proof (induction chunks arbitrary: s acc)
  case Nil
  show ?case by simp
next
  case (Cons c cs)
  obtain out s' where step: "translate_batch_on_gpu eng s c src tgt = (out, s')"
    by (cases "translate_batch_on_gpu eng s c src tgt")
  have "run_chunks eng s src tgt (c # cs) acc = (acc @ out) @ run_chunks eng s' src tgt cs []"
    using step Cons.IH [of s' "acc @ out"] by simp
  moreover have "run_chunks eng s src tgt (c # cs) [] = out @ run_chunks eng s' src tgt cs []"
    using step Cons.IH [of s' "[] @ out"] by simp
  ultimately show ?case by simp
qed

lemma run_chunks_Cons:
  "run_chunks eng s src tgt (c # cs) [] =
     fst (translate_batch_on_gpu eng s c src tgt)
       @ run_chunks eng (snd (translate_batch_on_gpu eng s c src tgt)) src tgt cs []"
  using run_chunks_acc [of eng _ src tgt cs "fst (translate_batch_on_gpu eng s c src tgt)"]
  by (simp add: case_prod_beta)

lemma length_run_chunks:
  "length (run_chunks eng s src tgt chunks []) = length (concat chunks)"
proof (induction chunks arbitrary: s)
  case Nil
  show ?case by simp
next
  case (Cons c cs)
  show ?case
    by (simp only: run_chunks_Cons length_append Cons.IH length_translate_batch_on_gpu concat.simps)
qed

lemma concat_sub_batches: "concat (sub_batches xs i) = drop i xs"
proof (induction xs i rule: sub_batches.induct)
  case (1 xs i)
  show ?case
  proof (cases "i < length xs")
    case True
    have "take MODEL_BATCH_SIZE (drop i xs) @ drop (i + MODEL_BATCH_SIZE) xs = drop i xs"
      using append_take_drop_id [of MODEL_BATCH_SIZE "drop i xs"] by (simp add: add.commute)
    with True 1 show ?thesis
      by (subst sub_batches.simps) simp
  next
    case False
    then show ?thesis
      by (subst sub_batches.simps) simp
  qed
qed

lemma div_plus_batch:
  "(m + MODEL_BATCH_SIZE) div MODEL_BATCH_SIZE = Suc (m div MODEL_BATCH_SIZE)"
  by (simp add: MODEL_BATCH_SIZE_def)

lemma chunk_count_full:
  assumes "i + MODEL_BATCH_SIZE \<le> n"
  shows "Suc ((n - (i + MODEL_BATCH_SIZE) + (MODEL_BATCH_SIZE - 1)) div MODEL_BATCH_SIZE)
           = (n - i + (MODEL_BATCH_SIZE - 1)) div MODEL_BATCH_SIZE"
proof -
  from assms have eq: "n - i + (MODEL_BATCH_SIZE - 1)
               = (n - (i + MODEL_BATCH_SIZE) + (MODEL_BATCH_SIZE - 1)) + MODEL_BATCH_SIZE"
    by simp
  show ?thesis
    by (simp only: eq div_plus_batch)
qed

lemma chunk_count_last:
  assumes "i < n" "\<not> i + MODEL_BATCH_SIZE \<le> n"
  shows "Suc ((n - (i + MODEL_BATCH_SIZE) + (MODEL_BATCH_SIZE - 1)) div MODEL_BATCH_SIZE)
           = (n - i + (MODEL_BATCH_SIZE - 1)) div MODEL_BATCH_SIZE"
proof -
  from assms have eq: "n - i + (MODEL_BATCH_SIZE - 1) = (n - i - 1) + MODEL_BATCH_SIZE"
    and small: "(n - i - 1) div MODEL_BATCH_SIZE = 0"
    and zero: "n - (i + MODEL_BATCH_SIZE) = 0"
    by (simp_all add: MODEL_BATCH_SIZE_def)
  have "(0 + (MODEL_BATCH_SIZE - 1)) div MODEL_BATCH_SIZE = 0"
    by (simp add: MODEL_BATCH_SIZE_def)
  then show ?thesis
    by (simp only: eq zero div_plus_batch small)
qed

lemma chunk_count_step:
  assumes "i < n"
  shows "Suc ((n - (i + MODEL_BATCH_SIZE) + (MODEL_BATCH_SIZE - 1)) div MODEL_BATCH_SIZE)
           = (n - i + (MODEL_BATCH_SIZE - 1)) div MODEL_BATCH_SIZE"
  using assms chunk_count_full [of i n] chunk_count_last [of i n] by blast

lemma length_sub_batches:
  "length (sub_batches xs i) = (length xs - i + (MODEL_BATCH_SIZE - 1)) div MODEL_BATCH_SIZE"
proof (induction xs i rule: sub_batches.induct)
  case (1 xs i)
  show ?case
  proof (cases "i < length xs")
    case True
    with 1 have "length (sub_batches xs i)
        = Suc ((length xs - (i + MODEL_BATCH_SIZE) + (MODEL_BATCH_SIZE - 1)) div MODEL_BATCH_SIZE)"
      by (subst sub_batches.simps) simp
    with chunk_count_step [OF True] show ?thesis
      by (simp only:)
  next
    case False
    then have "(length xs - i + (MODEL_BATCH_SIZE - 1)) div MODEL_BATCH_SIZE = 0"
      by (simp add: MODEL_BATCH_SIZE_def)
    with False show ?thesis
      by (subst sub_batches.simps) simp
  qed
qed

lemma sub_batches_bounds:
  "c \<in> set (sub_batches xs i) \<Longrightarrow> 0 < length c \<and> length c \<le> MODEL_BATCH_SIZE"
proof (induction xs i rule: sub_batches.induct)
  case (1 xs i)
  show ?case
  proof (cases "i < length xs")
    case True
    from "1.prems" True
    have "c = take MODEL_BATCH_SIZE (drop i xs) \<or> c \<in> set (sub_batches xs (i + MODEL_BATCH_SIZE))"
      by (subst (asm) sub_batches.simps) simp
    then show ?thesis
    proof
      assume "c = take MODEL_BATCH_SIZE (drop i xs)"
      with True show ?thesis by (simp add: MODEL_BATCH_SIZE_def)
    next
      assume "c \<in> set (sub_batches xs (i + MODEL_BATCH_SIZE))"
      with True "1.IH" show ?thesis by simp
    qed
  next
    case False
    with "1.prems" show ?thesis
      by (subst (asm) sub_batches.simps) simp
  qed
qed

lemma sub_batches_nth:
  "j < length (sub_batches xs i) \<Longrightarrow>
     sub_batches xs i ! j = take MODEL_BATCH_SIZE (drop (i + j * MODEL_BATCH_SIZE) xs)"
proof (induction xs i arbitrary: j rule: sub_batches.induct)
  case (1 xs i)
  show ?case
  proof (cases "i < length xs")
    case True
    have unf: "sub_batches xs i
        = take MODEL_BATCH_SIZE (drop i xs) # sub_batches xs (i + MODEL_BATCH_SIZE)"
      using True by (subst sub_batches.simps) simp
    show ?thesis
    proof (cases j)
      case 0
      then show ?thesis by (simp add: unf)
    next
      case (Suc j')
      with "1.prems" unf have "j' < length (sub_batches xs (i + MODEL_BATCH_SIZE))" by simp
      from "1.IH" [OF True this] Suc show ?thesis
        by (simp add: unf ac_simps)
    qed
  next
    case False
    with "1.prems" show ?thesis
      by (subst (asm) sub_batches.simps) simp
  qed
qed

subsection \<open>The filter loop and the reconstruction\<close>

lemma upt_0_Suc: "[0..<Suc n] = 0 # map Suc [0..<n]"
  by (simp add: upt_conv_Cons map_Suc_upt del: upt_Suc)

lemma filter_loop_eq:
  "filter_loop U i ts (ft, ti) =
     (ft @ map (strip U) (filter (translatable U) ts),
      ti @ map (\<lambda>k. i + k) (filter (\<lambda>k. translatable U (ts ! k)) [0..<length ts]))"
proof (induction ts arbitrary: i ft ti)
  case Nil
  show ?case by simp
next
  case (Cons t ts)
  have idx: "filter (\<lambda>k. translatable U ((t # ts) ! k)) [0..<length (t # ts)]
      = (if translatable U t then [0] else [])
          @ map Suc (filter (\<lambda>k. translatable U (ts ! k)) [0..<length ts])"
    by (simp add: upt_0_Suc filter_map comp_def del: upt_Suc)
  show ?case
    by (simp only: idx filter_loop.simps Let_def Cons.IH)
       (simp add: translatable_def [abs_def])
qed

lemma text_indices_eq:
  "snd (filter_loop U 0 ts ([], [])) = filter (\<lambda>k. translatable U (ts ! k)) [0..<length ts]"
  by (simp add: filter_loop_eq)

lemma filtered_texts_eq:
  "fst (filter_loop U 0 ts ([], [])) = map (strip U) (filter (translatable U) ts)"
  by (simp add: filter_loop_eq)

lemma filter_nth_upt: "map (\<lambda>k. xs ! k) (filter (\<lambda>k. P (xs ! k)) [0..<length xs]) = filter P xs"
proof -
  have "filter P (map (\<lambda>k. xs ! k) [0..<length xs]) = filter P xs"
    by (simp add: map_nth)
  then show ?thesis
    by (simp add: filter_map comp_def)
qed

lemma length_filter_upt:
  "length (filter (\<lambda>k. P (xs ! k)) [0..<length xs]) = length (filter P xs)"
  using arg_cong [OF filter_nth_upt [of xs P], of length] by simp

lemma filtered_texts_by_index:
  "fst (filter_loop U 0 ts ([], []))
     = map (\<lambda>k. strip U (ts ! k)) (snd (filter_loop U 0 ts ([], [])))"
proof -
  have "map (strip U) (filter (translatable U) ts)
      = map (strip U) (map (\<lambda>k. ts ! k) (filter (\<lambda>k. translatable U (ts ! k)) [0..<length ts]))"
    by (simp only: filter_nth_upt)
  then show ?thesis
    by (simp add: filtered_texts_eq text_indices_eq comp_def)
qed

lemma rank_lemma:
  assumes "i < length xs" "P (xs ! i)"
  shows "filter (\<lambda>k. P (xs ! k)) [0..<length xs] ! length (filter P (take i xs)) = i"
    and "length (filter P (take i xs)) < length (filter (\<lambda>k. P (xs ! k)) [0..<length xs])"
proof -
  let ?Q = "\<lambda>k. P (xs ! k)"
  have split: "[0..<length xs] = [0..<i] @ i # [Suc i..<length xs]"
    using assms(1) by (metis le0 upt_add_eq_append upt_conv_Cons le_add_diff_inverse less_imp_le add_0)
  have "filter ?Q [0..<i] = filter (\<lambda>k. P (take i xs ! k)) [0..<length (take i xs)]"
    using assms(1) by (auto intro: filter_cong)
  then have len: "length (filter ?Q [0..<i]) = length (filter P (take i xs))"
    by (simp only: length_filter_upt)
  have fl: "filter ?Q [0..<length xs] = filter ?Q [0..<i] @ i # filter ?Q [Suc i..<length xs]"
    using assms(2) by (subst split) simp
  show "filter ?Q [0..<length xs] ! length (filter P (take i xs)) = i"
    by (simp only: fl len [symmetric] nth_append_length)
  show "length (filter P (take i xs)) < length (filter ?Q [0..<length xs])"
    by (simp only: fl len [symmetric]) simp
qed

lemma reconstruct_Inr:
  "\<forall>p\<in>set ps. fst p < length final \<Longrightarrow>
   \<exists>r. reconstruct final ps = Inr r \<and> length r = length final
        \<and> (\<forall>j. j \<notin> fst ` set ps \<longrightarrow> r ! j = final ! j)
        \<and> (distinct (map fst ps) \<longrightarrow> (\<forall>p\<in>set ps. r ! fst p = snd p))"
proof (induction ps arbitrary: final)
  case Nil
  show ?case by simp
next
  case (Cons p ps)
  obtain i t where p: "p = (i, t)" by (cases p)
  from Cons.prems p have i: "i < length final" by simp
  from Cons.prems have "\<forall>q\<in>set ps. fst q < length (final[i := t])" by simp
  from Cons.IH [OF this] obtain r where r: "reconstruct (final[i := t]) ps = Inr r"
    "length r = length final"
    "\<forall>j. j \<notin> fst ` set ps \<longrightarrow> r ! j = final[i := t] ! j"
    "distinct (map fst ps) \<longrightarrow> (\<forall>q\<in>set ps. r ! fst q = snd q)"
    by auto
  have "reconstruct final (p # ps) = Inr r"
    using p i r(1) by simp
  moreover have "\<forall>j. j \<notin> fst ` set (p # ps) \<longrightarrow> r ! j = final ! j"
    using r(3) p by auto
  moreover have "distinct (map fst (p # ps)) \<longrightarrow> (\<forall>q\<in>set (p # ps). r ! fst q = snd q)"
    using r(3,4) p i by auto
  ultimately show ?case using r(2) by blast
qed

subsection \<open>The orchestration function and the endpoint\<close>

lemma translate_batch_on_gpu_fst:
  "fst (translate_batch_on_gpu eng s batch_texts src tgt) =
     (if batch_texts = [] then []
      else case fst (eng s batch_texts src tgt) of
             Returns results \<Rightarrow> ensure_count results batch_texts
           | Raises \<Rightarrow> batch_texts
           | TimesOut \<Rightarrow> batch_texts)"
  by (simp add: translate_batch_on_gpu_def split: prod.splits engine_outcome.splits)

lemma run_chunks_slice:
  "j < length chunks \<Longrightarrow>
   chunk_slice chunks j (run_chunks eng s src tgt chunks []) =
     fst (translate_batch_on_gpu eng (engine_state_before eng s src tgt chunks j)
            (chunks ! j) src tgt)"
proof (induction chunks arbitrary: s j)
  case Nil
  then show ?case by simp
next
  case (Cons c cs)
  let ?out = "fst (translate_batch_on_gpu eng s c src tgt)"
  let ?s' = "snd (translate_batch_on_gpu eng s c src tgt)"
  have len: "length ?out = length c"
    by (rule length_translate_batch_on_gpu)
  show ?case
  proof (cases j)
    case 0
    then show ?thesis
      by (simp add: chunk_slice_def run_chunks_Cons len del: run_chunks.simps)
  next
    case (Suc j')
    with Cons.prems have "j' < length cs" by simp
    from Cons.IH [OF this, of ?s'] Suc show ?thesis
      by (simp add: chunk_slice_def run_chunks_Cons len del: run_chunks.simps)
  qed
qed

lemma concat_take_sub_batches:
  "j \<le> length (sub_batches xs i) \<Longrightarrow>
     concat (take j (sub_batches xs i)) = take (j * MODEL_BATCH_SIZE) (drop i xs)"
proof (induction xs i arbitrary: j rule: sub_batches.induct)
  case (1 xs i)
  show ?case
  proof (cases "i < length xs")
    case True
    have unf: "sub_batches xs i
        = take MODEL_BATCH_SIZE (drop i xs) # sub_batches xs (i + MODEL_BATCH_SIZE)"
      using True by (subst sub_batches.simps) simp
    show ?thesis
    proof (cases j)
      case 0
      then show ?thesis by simp
    next
      case (Suc j')
      with "1.prems" unf have "j' \<le> length (sub_batches xs (i + MODEL_BATCH_SIZE))" by simp
      from "1.IH" [OF True this]
      have "concat (take j (sub_batches xs i))
          = take MODEL_BATCH_SIZE (drop i xs)
              @ take (j' * MODEL_BATCH_SIZE) (drop MODEL_BATCH_SIZE (drop i xs))"
        by (simp add: unf Suc add.commute)
      also have "\<dots> = take (MODEL_BATCH_SIZE + j' * MODEL_BATCH_SIZE) (drop i xs)"
        by (simp only: take_add)
      finally show ?thesis by (simp add: Suc)
    qed
  next
    case False
    with "1.prems" show ?thesis
      by (subst (asm) sub_batches.simps) simp
  qed
qed

lemma reconstruct_length:
  "reconstruct final ps = Inr r \<Longrightarrow> length r = length final"
proof (induction ps arbitrary: final)
  case Nil
  then show ?case by simp
next
  case (Cons p ps)
  obtain i t where "p = (i, t)" by (cases p)
  with Cons show ?case
    by (auto split: if_splits)
qed

lemma with_model_unencodable:
  "\<not> encodable lang \<Longrightarrow> translate_texts_with_model eng s U ts lang = Inl UnicodeEncodeError"
  by (simp add: translate_texts_with_model_def)

lemma with_model_encodable:
  "encodable lang \<Longrightarrow>
   translate_texts_with_model eng s U ts lang =
     Inr (case translate_texts_with_model_try eng s U ts lang of
            Inl e \<Rightarrow> ts | Inr final_results \<Rightarrow> final_results)"
  by (simp add: translate_texts_with_model_def)

lemma length_text_indices: "length (text_indices U ts) = length (filtered_texts U ts)"
  by (simp add: filtered_texts_def text_indices_def filtered_texts_by_index [of U ts])

lemma length_all_translations:
  "length (all_translations eng s U t ts) = length (filtered_texts U ts)"
  by (simp add: all_translations_def length_run_chunks concat_sub_batches)

lemma text_indices_props:
  "distinct (text_indices U ts)" "\<forall>i\<in>set (text_indices U ts). i < length ts"
  "i < length ts \<Longrightarrow> i \<in> set (text_indices U ts) \<longleftrightarrow> translatable U (ts ! i)"
  by (simp_all add: text_indices_def text_indices_eq)

lemma with_model_try_unfold:
  "translate_texts_with_model_try eng s U ts lang =
     (if falsy (tgt_lang_of lang)
      then (if encodable lang then Inr ts else Inl UnicodeEncodeError)
      else if filter_loop_raises U ts then Inl UnicodeEncodeError
      else if filtered_texts U ts = [] then Inr ts
      else reconstruct ts
             (zip (text_indices U ts) (all_translations eng s U (the (tgt_lang_of lang)) ts)))"
  by (simp add: translate_texts_with_model_try_def Let_def case_prod_beta
                filtered_texts_def text_indices_def all_translations_def)

lemma length_translate_texts_with_model:
  assumes "translate_texts_with_model eng s U ts lang = Inr r"
  shows "length r = length ts"
proof -
  from assms have enc: "encodable lang"
    by (cases "encodable lang") (simp_all add: with_model_unencodable)
  show ?thesis
  proof (cases "translate_texts_with_model_try eng s U ts lang")
    case (Inl e)
    with assms enc show ?thesis by (simp add: with_model_encodable)
  next
    case (Inr f)
    then have "length f = length ts"
      by (auto simp: with_model_try_unfold split: if_splits dest: reconstruct_length)
    with Inr assms enc show ?thesis by (simp add: with_model_encodable)
  qed
qed

lemma with_model_unresolved:
  "encodable lang \<Longrightarrow> falsy (tgt_lang_of lang) \<Longrightarrow>
   translate_texts_with_model eng s U ts lang = Inr ts"
  by (simp add: with_model_encodable with_model_try_unfold)

lemma with_model_filter_raises:
  "encodable lang \<Longrightarrow> filter_loop_raises U ts \<Longrightarrow>
   translate_texts_with_model eng s U ts lang = Inr ts"
  by (simp add: with_model_encodable with_model_try_unfold)

lemma with_model_resolved:
  assumes "encodable lang" and "\<not> falsy (tgt_lang_of lang)" and "\<not> filter_loop_raises U ts"
  shows "\<exists>r. translate_texts_with_model eng s U ts lang = Inr r \<and> length r = length ts
           \<and> (\<forall>j. j \<notin> set (text_indices U ts) \<longrightarrow> r ! j = ts ! j)
           \<and> (\<forall>k<length (text_indices U ts).
                 r ! (text_indices U ts ! k) = all_translations eng s U (the (tgt_lang_of lang)) ts ! k)"
proof (cases "filtered_texts U ts = []")
  case True
  then have "text_indices U ts = []"
    using length_text_indices [of U ts] by simp
  moreover have "translate_texts_with_model eng s U ts lang = Inr ts"
    using assms True
    by (simp add: with_model_encodable with_model_try_unfold)
  ultimately show ?thesis by simp
next
  case False
  let ?idx = "text_indices U ts"
  let ?all = "all_translations eng s U (the (tgt_lang_of lang)) ts"
  let ?ps = "zip ?idx ?all"
  have len: "length ?idx = length ?all"
    by (simp add: length_text_indices length_all_translations)
  have fst_ps: "map fst ?ps = ?idx"
    using len by (rule map_fst_zip [OF _])
  have "\<forall>p\<in>set ?ps. fst p < length ts"
    using text_indices_props(2) [of U ts] by (auto dest: set_zip_leftD)
  from reconstruct_Inr [OF this] obtain r where r: "reconstruct ts ?ps = Inr r"
    "length r = length ts" "\<forall>j. j \<notin> fst ` set ?ps \<longrightarrow> r ! j = ts ! j"
    "distinct (map fst ?ps) \<longrightarrow> (\<forall>p\<in>set ?ps. r ! fst p = snd p)"
    by blast
  have eq: "translate_texts_with_model eng s U ts lang = Inr r"
    using assms False r(1)
    by (simp add: with_model_encodable with_model_try_unfold)
  have img: "fst ` set ?ps = set ?idx"
    using arg_cong [OF fst_ps, of set] by simp
  have "\<forall>k<length ?idx. r ! (?idx ! k) = ?all ! k"
  proof (intro allI impI)
    fix k assume k: "k < length ?idx"
    then have "(?idx ! k, ?all ! k) \<in> set ?ps"
      using len by (auto simp: set_zip)
    with r(4) fst_ps text_indices_props(1) [of U ts] show "r ! (?idx ! k) = ?all ! k"
      by fastforce
  qed
  with eq r(2,3) img show ?thesis by simp
qed

lemma try_except_answer:
  assumes "translate_texts_with_model eng s U (texts request) (target_language request) = Inr r"
  shows "translate_texts_try_except eng s U request = \<lparr>translations_out = r, error = None\<rparr>"
  using assms length_translate_texts_with_model [OF assms]
  by (simp add: translate_texts_try_except_def translate_texts_try_def)

lemma try_except_error:
  assumes "translate_texts_with_model eng s U (texts request) (target_language request) = Inl e"
  shows "translate_texts_try_except eng s U request
           = \<lparr>translations_out = texts request, error = Some e\<rparr>"
  using assms by (simp add: translate_texts_try_except_def translate_texts_try_def)

lemma translate_texts_raises:
  "\<not> (encodable (source_language request) \<and> encodable (target_language request)) \<Longrightarrow>
   translate_texts eng s U request = Inl UnicodeEncodeError"
  by (simp add: translate_texts_def)

lemma translate_texts_answered:
  assumes "translate_texts eng s U request = Inr r"
  shows "encodable (source_language request)" and "encodable (target_language request)"
    and "\<exists>ts. translate_texts_with_model eng s U (texts request) (target_language request) = Inr ts
              \<and> r = \<lparr>translations_out = ts, error = None\<rparr>"
proof -
  from assms show enc: "encodable (source_language request)" "encodable (target_language request)"
    by (simp_all add: translate_texts_def split: if_splits)
  from assms have r: "r = translate_texts_try_except eng s U request"
    by (simp add: translate_texts_def split: if_splits)
  from with_model_encodable [OF enc(2), of eng s U "texts request"]
  obtain ts where ts: "translate_texts_with_model eng s U (texts request) (target_language request) = Inr ts"
    by blast
  with r try_except_answer [OF ts]
  show "\<exists>ts. translate_texts_with_model eng s U (texts request) (target_language request) = Inr ts
              \<and> r = \<lparr>translations_out = ts, error = None\<rparr>"
    by simp
qed

lemma translate_texts_answers:
  assumes "encodable (source_language request)" and "encodable (target_language request)"
  shows "\<exists>r. translate_texts eng s U request = Inr r"
  using assms by (simp add: translate_texts_def)

subsection \<open>Chunk arithmetic\<close>

lemma chunk_count_bounds:
  fixes n :: nat
  defines "z \<equiv> (n + 23) div 24"
  shows "n \<le> 24 * z" and "24 * z < n + 24"
proof -
  define r where "r = (n + 23) mod 24"
  have "z * 24 + r = n + 23"
    unfolding z_def r_def by (rule div_mult_mod_eq)
  moreover have "r < 24"
    unfolding r_def by simp
  ultimately show "n \<le> 24 * z" and "24 * z < n + 24"
    by linarith+
qed

lemma chunk_index_bound:
  assumes "k < n"
  shows "k div MODEL_BATCH_SIZE < (n - 0 + (MODEL_BATCH_SIZE - 1)) div MODEL_BATCH_SIZE"
proof -
  have "k < (n + 23) div 24 * 24"
    using assms chunk_count_bounds(1) [of n] by linarith
  then have "k div 24 < (n + 23) div 24"
    by (rule less_mult_imp_div_less)
  then show ?thesis by (simp add: MODEL_BATCH_SIZE_def)
qed

lemma chunk_count_ceiling:
  "int ((n - 0 + (MODEL_BATCH_SIZE - 1)) div MODEL_BATCH_SIZE)
     = \<lceil>real n / real MODEL_BATCH_SIZE\<rceil>"
proof -
  define z where "z = (n + 23) div 24"
  have "n \<le> 24 * z" and "24 * z < n + 24"
    unfolding z_def by (rule chunk_count_bounds)+
  then have "real n \<le> real (24 * z)" and "real (24 * z) < real (n + 24)"
    by (simp_all only: of_nat_le_iff of_nat_less_iff)
  then have "real n / 24 \<le> real_of_int (int z)" and "real_of_int (int z) - 1 < real n / 24"
    by simp_all
  then have "\<lceil>real n / 24\<rceil> = int z"
    by (intro ceiling_unique)
  then show ?thesis by (simp add: MODEL_BATCH_SIZE_def z_def)
qed

lemma run_chunks_nth:
  assumes "k < length xs"
  defines "chunks \<equiv> sub_batches xs 0"
  defines "j \<equiv> k div MODEL_BATCH_SIZE"
  shows "j < length chunks"
    and "k mod MODEL_BATCH_SIZE < length (chunks ! j)"
    and "chunks ! j ! (k mod MODEL_BATCH_SIZE) = xs ! k"
    and "run_chunks eng s src tgt chunks [] ! k
           = chunk_slice chunks j (run_chunks eng s src tgt chunks []) ! (k mod MODEL_BATCH_SIZE)"
proof -
  have B: "0 < MODEL_BATCH_SIZE" by (simp add: MODEL_BATCH_SIZE_def)
  have k: "j * MODEL_BATCH_SIZE + k mod MODEL_BATCH_SIZE = k"
    by (simp add: j_def)
  show j: "j < length chunks"
    using chunk_index_bound [OF assms(1)] by (simp add: chunks_def j_def length_sub_batches)
  have cj: "chunks ! j = take MODEL_BATCH_SIZE (drop (j * MODEL_BATCH_SIZE) xs)"
    using sub_batches_nth [of j xs 0] j by (simp add: chunks_def)
  have lt: "k mod MODEL_BATCH_SIZE < length xs - j * MODEL_BATCH_SIZE"
  proof -
    define a where "a = j * MODEL_BATCH_SIZE"
    define b where "b = k mod MODEL_BATCH_SIZE"
    from k assms(1) have "a + b < length xs" by (simp add: a_def b_def)
    then have "b < length xs - a" by simp
    then show ?thesis by (simp only: a_def b_def)
  qed
  show m: "k mod MODEL_BATCH_SIZE < length (chunks ! j)"
    using lt B by (simp add: cj)
  show "chunks ! j ! (k mod MODEL_BATCH_SIZE) = xs ! k"
    using lt B k by (simp add: cj)
  have pre: "length (concat (take j chunks)) = j * MODEL_BATCH_SIZE"
    using concat_take_sub_batches [of j xs 0] j lt by (simp add: chunks_def)
  have len: "length (run_chunks eng s src tgt chunks []) = length xs"
    by (simp add: length_run_chunks chunks_def concat_sub_batches)
  show "run_chunks eng s src tgt chunks [] ! k
           = chunk_slice chunks j (run_chunks eng s src tgt chunks []) ! (k mod MODEL_BATCH_SIZE)"
    using m lt k by (simp add: chunk_slice_def pre len)
qed

section \<open>The claims\<close>

lemma tgt_lang_unknown:
  assumes "lang \<notin> set valid_target_langs" "lang \<notin> fst ` set tgt_lang_map"
  shows "falsy (tgt_lang_of lang)"
proof -
  from assms(2) have "map_of tgt_lang_map lang = None"
    by (simp add: map_of_eq_None_iff)
  with assms(1) show ?thesis by (simp add: tgt_lang_of_def)
qed

text \<open>
  Claim C4. The loop of lines 326 to 339 records the index of a text exactly when the
  stripped text is non-empty, at most 1000 code points long and contains a letter; the texts
  it submits are the stripped texts at the recorded indices. A text of digits is not
  recorded, the text \<^verbatim>\<open>A\<close> is.
\<close>

theorem filter_classification:
  "(\<forall>i<length ts.
      i \<in> set (text_indices U ts) \<longleftrightarrow>
        0 < length (strip U (ts ! i)) \<and> length (strip U (ts ! i)) \<le> 1000
          \<and> (\<exists>c\<in>set (strip U (ts ! i)). isalpha U c))
   \<and> filtered_texts U ts = map (\<lambda>i. strip U (ts ! i)) (text_indices U ts)
   \<and> text_indices U [cp ''12345''] = []
   \<and> text_indices U [cp ''A''] = [0]"
proof (intro conjI allI impI)
  fix i assume "i < length ts"
  then show "i \<in> set (text_indices U ts) \<longleftrightarrow>
        0 < length (strip U (ts ! i)) \<and> length (strip U (ts ! i)) \<le> 1000
          \<and> (\<exists>c\<in>set (strip U (ts ! i)). isalpha U c)"
    by (auto simp: text_indices_props(3) translatable_def passes_filter_def list_ex_iff)
next
  show "filtered_texts U ts = map (\<lambda>i. strip U (ts ! i)) (text_indices U ts)"
    by (simp add: filtered_texts_def text_indices_def filtered_texts_by_index [of U ts])
next
  show "text_indices U [cp ''12345''] = []"
    by (simp add: text_indices_def cp_def strip_def isspace_def isalpha_def passes_filter_def)
next
  show "text_indices U [cp ''A''] = [0]"
    by (simp add: text_indices_def cp_def strip_def isspace_def isalpha_def passes_filter_def)
qed

text \<open>
  In the request of the scenario the first text is recorded and the second, \<^verbatim>\<open>123\<close>,
  is not; a Devanagari word between a no-break space and a blank is recorded as well.
\<close>

theorem filter_classification_witness:
  "0 \<in> set (text_indices sample_ucd (texts sample_request))
   \<and> 1 \<notin> set (text_indices sample_ucd (texts sample_request))
   \<and> 0 \<in> set (text_indices sample_ucd [[160, 2344, 2350, 32]])"
proof -
  note h = filter_classification [of "texts sample_request" sample_ucd, THEN conjunct1, rule_format]
  note g = filter_classification [of "[[160, 2344, 2350, 32]]" sample_ucd, THEN conjunct1, rule_format]
  have l: "0 < length (texts sample_request)" "1 < length (texts sample_request)"
    by (simp_all add: sample_request_def)
  have m: "0 < length [[160, 2344, 2350, 32 :: nat]]"
    by simp
  from h [OF l(1)] h [OF l(2)] g [OF m] show ?thesis
    by (simp add: sample_request_def cp_def strip_def isspace_def isalpha_def sample_ucd_def)
qed

subsection \<open>Requests that are answered\<close>

lemma answered_length:
  assumes "translate_texts eng s U request = Inr r"
  shows "length (translations_out r) = length (texts request)"
  using translate_texts_answered(3) [OF assms]
  by (auto dest: length_translate_texts_with_model)

lemma answered_unknown_language:
  assumes "translate_texts eng s U request = Inr r"
      and "target_language request \<notin> set valid_target_langs"
      and "target_language request \<notin> fst ` set tgt_lang_map"
  shows "r = \<lparr>translations_out = texts request, error = None\<rparr>"
  using translate_texts_answered(3) [OF assms(1)]
    with_model_unresolved [OF translate_texts_answered(2) [OF assms(1)] tgt_lang_unknown [OF assms(2,3)],
      of eng s U "texts request"]
  by auto

lemma answered_passthrough:
  assumes "translate_texts eng s U request = Inr r"
      and "i < length (texts request)" and "\<not> translatable U (texts request ! i)"
  shows "translations_out r ! i = texts request ! i"
proof -
  let ?ts = "texts request" and ?lang = "target_language request"
  note enc = translate_texts_answered(2) [OF assms(1)]
  from translate_texts_answered(3) [OF assms(1)] obtain out
    where out: "translate_texts_with_model eng s U ?ts ?lang = Inr out"
      and r: "r = \<lparr>translations_out = out, error = None\<rparr>"
    by blast
  have "out ! i = ?ts ! i"
  proof (cases "falsy (tgt_lang_of ?lang) \<or> filter_loop_raises U ?ts")
    case True
    then have "translate_texts_with_model eng s U ?ts ?lang = Inr ?ts"
      using enc by (auto simp: with_model_unresolved with_model_filter_raises)
    with out show ?thesis by simp
  next
    case False
    then have res: "\<not> falsy (tgt_lang_of ?lang)" and ok: "\<not> filter_loop_raises U ?ts"
      by simp_all
    have "i \<notin> set (text_indices U ?ts)"
      using assms(2,3) by (simp add: text_indices_props(3))
    with with_model_resolved [OF enc res ok, of eng s] out show ?thesis
      by auto
  qed
  with r show ?thesis by simp
qed

subsection \<open>Requests that are not answered\<close>

text \<open>
  Claim C1 fails on the code. A request whose source language holds a surrogate makes the
  \<^verbatim>\<open>print\<close> of line 379 raise before the \<^verbatim>\<open>try\<close> is entered: the exception leaves
  \<^verbatim>\<open>translate_texts\<close>, and the client gets no list of translations at all. The alias
  endpoint, which calls \<^verbatim>\<open>translate_texts\<close> inside its own \<^verbatim>\<open>try\<close>, answers the same
  request with the request's texts.
\<close>

theorem unprintable_source_no_translations:
  "translate_texts eng s U (sample_request\<lparr>source_language := [55296]\<rparr>)
     = Inl UnicodeEncodeError
   \<and> api_translate_texts eng s U (sample_request\<lparr>source_language := [55296]\<rparr>)
     = Inr \<lparr>translations_out = texts sample_request, error = Some UnicodeEncodeError\<rparr>"
  by (simp add: translate_texts_def api_translate_texts_def encodable_def sample_request_def cp_def)

text \<open>
  Claim C3 fails on the code. The target language that consists of one surrogate is
  neither a valid tag nor a short code, and the \<^verbatim>\<open>print\<close> of line 379 raises on it
  before the \<^verbatim>\<open>try\<close>: the request is not answered with its texts, it is not answered.
\<close>

theorem unprintable_unknown_language_raises:
  "tgt_lang_of [55296] = None
   \<and> translate_texts eng s U (sample_request\<lparr>target_language := [55296]\<rparr>)
     = Inl UnicodeEncodeError"
  by (simp add: translate_texts_def encodable_def tgt_lang_of_def valid_target_langs_def
                tgt_lang_map_def cp_def)

text \<open>
  Claim C5 fails on the code. The second text of the request of the scenario,
  \<^verbatim>\<open>123\<close>, is a passthrough text; with a source language that ends in a surrogate the
  \<^verbatim>\<open>print\<close> of line 379 raises and there is no response to hold it.
\<close>

theorem unprintable_source_drops_passthrough:
  "\<not> translatable U (texts sample_request ! 1)
   \<and> translate_texts eng s U (sample_request\<lparr>source_language := cp ''en'' @ [57343]\<rparr>)
     = Inl UnicodeEncodeError"
  by (simp add: translate_texts_def encodable_def sample_request_def translatable_def
                passes_filter_def strip_def isspace_def isalpha_def cp_def)

text \<open>
  Claim C6. The list that \<^verbatim>\<open>_translate_batch_on_gpu\<close> returns is always as long as its
  batch. When the engine returns too many results the surplus is cut off; when it returns too
  few, the missing ones are the batch's own texts at the missing positions.
\<close>

theorem batch_result_repaired:
  "length (fst (translate_batch_on_gpu eng s batch_texts src tgt)) = length batch_texts
   \<and> (batch_texts \<noteq> [] \<longrightarrow> fst (eng s batch_texts src tgt) = Returns results \<longrightarrow>
        (length batch_texts < length results \<longrightarrow>
           fst (translate_batch_on_gpu eng s batch_texts src tgt)
             = take (length batch_texts) results)
        \<and> (length results < length batch_texts \<longrightarrow>
           fst (translate_batch_on_gpu eng s batch_texts src tgt)
             = results @ drop (length results) batch_texts))"
proof (intro conjI impI)
  show "length (fst (translate_batch_on_gpu eng s batch_texts src tgt)) = length batch_texts"
    by (rule length_translate_batch_on_gpu)
next
  assume "batch_texts \<noteq> []" "fst (eng s batch_texts src tgt) = Returns results"
    and "length batch_texts < length results"
  then show "fst (translate_batch_on_gpu eng s batch_texts src tgt)
               = take (length batch_texts) results"
    by (simp add: translate_batch_on_gpu_fst ensure_count_eq)
next
  assume "batch_texts \<noteq> []" "fst (eng s batch_texts src tgt) = Returns results"
    and "length results < length batch_texts"
  then show "fst (translate_batch_on_gpu eng s batch_texts src tgt)
               = results @ drop (length results) batch_texts"
    by (simp add: translate_batch_on_gpu_fst ensure_count_eq)
qed

text \<open>
  A batch of two texts with an engine that returns one result, and a batch of one text
  with an engine that returns two.
\<close>

theorem batch_result_repaired_witness:
  "fst (translate_batch_on_gpu short_engine () [cp ''ab'', cp ''cd''] (cp ''eng_Latn'') (cp ''hin_Deva''))
     = [cp ''ba'', cp ''cd'']
   \<and> fst (translate_batch_on_gpu long_engine () [cp ''ab''] (cp ''eng_Latn'') (cp ''hin_Deva''))
     = [cp ''ba'']"
proof -
  note short = batch_result_repaired [of short_engine "()" "[cp ''ab'', cp ''cd'']" "cp ''eng_Latn''"
      "cp ''hin_Deva''" "[cp ''ba'']", THEN conjunct2, rule_format, THEN conjunct2, rule_format]
  note long = batch_result_repaired [of long_engine "()" "[cp ''ab'']" "cp ''eng_Latn''"
      "cp ''hin_Deva''" "[cp ''ba'', cp ''extra'']", THEN conjunct2, rule_format, THEN conjunct1, rule_format]
  have "fst (translate_batch_on_gpu short_engine () [cp ''ab'', cp ''cd''] (cp ''eng_Latn'') (cp ''hin_Deva''))
          = [cp ''ba''] @ drop (length [cp ''ba'']) [cp ''ab'', cp ''cd'']"
    by (rule short) (simp_all add: short_engine_def cp_def)
  moreover
  have "fst (translate_batch_on_gpu long_engine () [cp ''ab''] (cp ''eng_Latn'') (cp ''hin_Deva''))
          = take (length [cp ''ab'']) [cp ''ba'', cp ''extra'']"
    by (rule long) (simp_all add: long_engine_def cp_def)
  ultimately show ?thesis by simp
qed

text \<open>
  Claim C2. For any list of chunks, the positions of chunk \<open>j\<close> in the scheduler's
  result hold the chunk's own texts when the engine raises or times out on that chunk, and
  hold exactly what the engine returned for that chunk when it returned a list of the
  chunk's length (a list of another length is cut or padded with the chunk's own texts),
  whatever happened on the other chunks.
\<close>

theorem chunk_fallback_isolated:
  assumes "j < length chunks"
  shows "(chunk_outcome eng s src tgt chunks j = Raises
            \<or> chunk_outcome eng s src tgt chunks j = TimesOut
          \<longrightarrow> chunk_slice chunks j (run_chunks eng s src tgt chunks []) = chunks ! j)
       \<and> (chunk_outcome eng s src tgt chunks j = Returns results
            \<longrightarrow> length results = length (chunks ! j)
            \<longrightarrow> chunk_slice chunks j (run_chunks eng s src tgt chunks []) = results)
       \<and> (chunk_outcome eng s src tgt chunks j = Returns results
            \<longrightarrow> chunk_slice chunks j (run_chunks eng s src tgt chunks [])
                  = take (length (chunks ! j)) results @ drop (length results) (chunks ! j))"
  using run_chunks_slice [OF assms, of eng s src tgt]
  by (auto simp: translate_batch_on_gpu_fst chunk_outcome_def ensure_count_eq)

text \<open>
  Two chunks and an engine that raises on its first invocation only: the first chunk
  comes back unchanged, the second reversed.
\<close>

theorem chunk_fallback_isolated_witness:
  "chunk_slice [[cp ''ab'', cp ''cd''], [cp ''ef'']] 0
     (run_chunks flaky_engine 0 (cp ''eng_Latn'') (cp ''hin_Deva'') [[cp ''ab'', cp ''cd''], [cp ''ef'']] [])
     = [cp ''ab'', cp ''cd'']
   \<and> chunk_slice [[cp ''ab'', cp ''cd''], [cp ''ef'']] 1
     (run_chunks flaky_engine 0 (cp ''eng_Latn'') (cp ''hin_Deva'') [[cp ''ab'', cp ''cd''], [cp ''ef'']] [])
     = [cp ''fe'']"
proof -
  let ?chunks = "[[cp ''ab'', cp ''cd''], [cp ''ef'']]"
  have l: "0 < length ?chunks" "1 < length ?chunks" by simp_all
  note first = chunk_fallback_isolated [OF l(1), of flaky_engine 0 "cp ''eng_Latn''" "cp ''hin_Deva''",
      THEN conjunct1, rule_format]
  note second = chunk_fallback_isolated [OF l(2), of flaky_engine 0 "cp ''eng_Latn''" "cp ''hin_Deva''"
      "[cp ''fe'']", THEN conjunct2, THEN conjunct1, rule_format]
  have "chunk_slice ?chunks 0 (run_chunks flaky_engine 0 (cp ''eng_Latn'') (cp ''hin_Deva'') ?chunks [])
          = ?chunks ! 0"
    by (rule first) (simp add: chunk_outcome_def flaky_engine_def)
  moreover
  have "chunk_slice ?chunks 1 (run_chunks flaky_engine 0 (cp ''eng_Latn'') (cp ''hin_Deva'') ?chunks [])
          = [cp ''fe'']"
    by (rule second)
       (simp_all add: chunk_outcome_def flaky_engine_def translate_batch_on_gpu_def cp_def)
  ultimately show ?thesis by simp
qed

text \<open>
  Claim C7. With \<open>N\<close> filtered texts and \<^verbatim>\<open>MODEL_BATCH_SIZE\<close> \<open>= 24\<close>, the loop of line
  351 visits \<open>\<lceil>N / 24\<rceil>\<close> chunks, each of at least one and at most 24 texts, which
  are consecutive slices: their concatenation is the list of filtered texts. The scheduler's
  result has length \<open>N\<close>, and its \<open>k\<close>-th entry is the entry for the \<open>k\<close>-th
  filtered text: entry \<open>k mod 24\<close> of the output of chunk \<open>k div 24\<close>, the chunk that
  holds this text at that position.
\<close>

theorem batching_correct:
  "MODEL_BATCH_SIZE = 24
   \<and> (\<forall>c\<in>set (sub_batches xs 0). 0 < length c \<and> length c \<le> MODEL_BATCH_SIZE)
   \<and> int (length (sub_batches xs 0)) = \<lceil>real (length xs) / real MODEL_BATCH_SIZE\<rceil>
   \<and> concat (sub_batches xs 0) = xs
   \<and> length (run_chunks eng s src tgt (sub_batches xs 0) []) = length xs
   \<and> (\<forall>k<length xs.
         k div MODEL_BATCH_SIZE < length (sub_batches xs 0)
         \<and> sub_batches xs 0 ! (k div MODEL_BATCH_SIZE) ! (k mod MODEL_BATCH_SIZE) = xs ! k
         \<and> run_chunks eng s src tgt (sub_batches xs 0) [] ! k
             = fst (translate_batch_on_gpu eng
                      (engine_state_before eng s src tgt (sub_batches xs 0) (k div MODEL_BATCH_SIZE))
                      (sub_batches xs 0 ! (k div MODEL_BATCH_SIZE)) src tgt)
                 ! (k mod MODEL_BATCH_SIZE))"
proof (intro conjI ballI allI impI)
  show "MODEL_BATCH_SIZE = 24"
    by (fact MODEL_BATCH_SIZE_def)
next
  fix c assume "c \<in> set (sub_batches xs 0)"
  from sub_batches_bounds [OF this] show "0 < length c" and "length c \<le> MODEL_BATCH_SIZE"
    by blast+
next
  show "int (length (sub_batches xs 0)) = \<lceil>real (length xs) / real MODEL_BATCH_SIZE\<rceil>"
    by (simp only: length_sub_batches chunk_count_ceiling)
next
  show "concat (sub_batches xs 0) = xs"
    by (simp add: concat_sub_batches)
next
  show "length (run_chunks eng s src tgt (sub_batches xs 0) []) = length xs"
    by (simp add: length_run_chunks concat_sub_batches)
next
  fix k assume k: "k < length xs"
  show "k div MODEL_BATCH_SIZE < length (sub_batches xs 0)"
    by (rule run_chunks_nth(1) [OF k])
  show "sub_batches xs 0 ! (k div MODEL_BATCH_SIZE) ! (k mod MODEL_BATCH_SIZE) = xs ! k"
    by (rule run_chunks_nth(3) [OF k])
  show "run_chunks eng s src tgt (sub_batches xs 0) [] ! k
          = fst (translate_batch_on_gpu eng
                   (engine_state_before eng s src tgt (sub_batches xs 0) (k div MODEL_BATCH_SIZE))
                   (sub_batches xs 0 ! (k div MODEL_BATCH_SIZE)) src tgt)
              ! (k mod MODEL_BATCH_SIZE)"
    by (simp only: run_chunks_nth(4) [OF k, of eng s src tgt]
                   run_chunks_slice [OF run_chunks_nth(1) [OF k], of eng s src tgt])
qed

text \<open>
  Twenty-five filtered texts and an engine that reverses every text: two chunks, the
  second of one text, and entry 24 of the result is the reversed last text.
\<close>

theorem batching_correct_witness:
  "int (length (sub_batches sample_filtered 0)) = 2
   \<and> 0 < length (drop 24 sample_filtered)
   \<and> length (drop 24 sample_filtered) \<le> MODEL_BATCH_SIZE
   \<and> sub_batches sample_filtered 0 ! (24 div MODEL_BATCH_SIZE) ! (24 mod MODEL_BATCH_SIZE)
       = sample_filtered ! 24
   \<and> run_chunks rev_engine () (cp ''eng_Latn'') (cp ''hin_Deva'') (sub_batches sample_filtered 0) [] ! 24
       = [121, 89]"
proof -
  note T = batching_correct [of sample_filtered rev_engine "()" "cp ''eng_Latn''" "cp ''hin_Deva''"]
  from T have count: "int (length (sub_batches sample_filtered 0))
      = \<lceil>real (length sample_filtered) / real MODEL_BATCH_SIZE\<rceil>"
    by blast
  have "length sample_filtered = 25"
    by (simp add: sample_filtered_def)
  with count have c: "int (length (sub_batches sample_filtered 0)) = 2"
    by (simp add: MODEL_BATCH_SIZE_def)
  from T have bounds: "\<forall>c\<in>set (sub_batches sample_filtered 0). 0 < length c \<and> length c \<le> MODEL_BATCH_SIZE"
    by blast
  have mem: "drop 24 sample_filtered \<in> set (sub_batches sample_filtered 0)"
    by code_simp
  from bounds mem have b: "0 < length (drop 24 sample_filtered)
      \<and> length (drop 24 sample_filtered) \<le> MODEL_BATCH_SIZE"
    by blast
  from T have nth: "\<forall>k<length sample_filtered.
         k div MODEL_BATCH_SIZE < length (sub_batches sample_filtered 0)
         \<and> sub_batches sample_filtered 0 ! (k div MODEL_BATCH_SIZE) ! (k mod MODEL_BATCH_SIZE)
             = sample_filtered ! k
         \<and> run_chunks rev_engine () (cp ''eng_Latn'') (cp ''hin_Deva'') (sub_batches sample_filtered 0) [] ! k
             = fst (translate_batch_on_gpu rev_engine
                      (engine_state_before rev_engine () (cp ''eng_Latn'') (cp ''hin_Deva'')
                         (sub_batches sample_filtered 0) (k div MODEL_BATCH_SIZE))
                      (sub_batches sample_filtered 0 ! (k div MODEL_BATCH_SIZE))
                      (cp ''eng_Latn'') (cp ''hin_Deva''))
                 ! (k mod MODEL_BATCH_SIZE)"
    by blast
  have k: "24 < length sample_filtered"
    by (simp add: sample_filtered_def)
  have e: "fst (translate_batch_on_gpu rev_engine
                      (engine_state_before rev_engine () (cp ''eng_Latn'') (cp ''hin_Deva'')
                         (sub_batches sample_filtered 0) (24 div MODEL_BATCH_SIZE))
                      (sub_batches sample_filtered 0 ! (24 div MODEL_BATCH_SIZE))
                      (cp ''eng_Latn'') (cp ''hin_Deva''))
                 ! (24 mod MODEL_BATCH_SIZE) = [121, 89]"
    by code_simp
  from nth [rule_format, OF k] e c b show ?thesis
    by (simp only:) 
qed

text \<open>
  Claim C8, as stated, fails: the second text of this request is one surrogate, so the
  \<^verbatim>\<open>print\<close> of line 339 raises while the texts are filtered, outside the per-chunk call.
  The handler of line 370 catches the exception and returns the input texts; the endpoint
  builds an ordinary response, without an error field.
\<close>

theorem filter_exception_no_error_field:
  "filter_loop_raises sample_ucd [cp ''Hello'', [55296]]
   \<and> translate_texts rev_engine () sample_ucd (sample_request\<lparr>texts := [cp ''Hello'', [55296]]\<rparr>)
       = Inr \<lparr>translations_out = [cp ''Hello'', [55296]], error = None\<rparr>"
proof -
  let ?req = "sample_request\<lparr>texts := [cp ''Hello'', [55296]]\<rparr>"
  have raises: "filter_loop_raises sample_ucd [cp ''Hello'', [55296]]"
    by (simp add: cp_def strip_def isspace_def isalpha_def passes_filter_def encodable_def
                  sample_ucd_def)
  have enc: "encodable (source_language ?req) \<and> encodable (target_language ?req)"
    by (simp add: sample_request_def encodable_def cp_def)
  then have "translate_texts_with_model rev_engine () sample_ucd (texts ?req) (target_language ?req)
               = Inr (texts ?req)"
    using raises by (simp add: with_model_filter_raises)
  from try_except_answer [OF this] enc raises show ?thesis
    by (simp add: translate_texts_def)
qed

text \<open>
  Claim C8, amended. In the \<^verbatim>\<open>try\<close> statement of the endpoint the response gets an
  error field exactly when an exception leaves \<^verbatim>\<open>translate_texts_with_model\<close> and so
  reaches the handler of line 426, and the translations are then the request's texts. An
  exception raised inside the \<^verbatim>\<open>try\<close> of \<^verbatim>\<open>translate_texts_with_model\<close>, outside the
  per-chunk call, is caught there: the translations are the request's texts and there is no
  error field. Every response that the endpoint returns is without an error field.
\<close>

theorem error_field_from_handler_only:
  "(translate_texts_with_model eng s U (texts request) (target_language request) = Inl e
      \<longrightarrow> translate_texts_try_except eng s U request
            = \<lparr>translations_out = texts request, error = Some e\<rparr>)
   \<and> (translate_texts_with_model eng s U (texts request) (target_language request) = Inr ts
      \<longrightarrow> translate_texts_try_except eng s U request = \<lparr>translations_out = ts, error = None\<rparr>)
   \<and> (encodable (target_language request) \<longrightarrow> filter_loop_raises U (texts request)
      \<longrightarrow> translate_texts_try_except eng s U request
            = \<lparr>translations_out = texts request, error = None\<rparr>)
   \<and> (translate_texts eng s U request = Inr r
      \<longrightarrow> r = translate_texts_try_except eng s U request \<and> error r = None
          \<and> (filter_loop_raises U (texts request) \<longrightarrow> translations_out r = texts request))"
proof (intro conjI impI)
  assume "translate_texts_with_model eng s U (texts request) (target_language request) = Inl e"
  then show "translate_texts_try_except eng s U request
               = \<lparr>translations_out = texts request, error = Some e\<rparr>"
    by (rule try_except_error)
next
  assume "translate_texts_with_model eng s U (texts request) (target_language request) = Inr ts"
  then show "translate_texts_try_except eng s U request = \<lparr>translations_out = ts, error = None\<rparr>"
    by (rule try_except_answer)
next
  assume "encodable (target_language request)" and "filter_loop_raises U (texts request)"
  then have "translate_texts_with_model eng s U (texts request) (target_language request)
               = Inr (texts request)"
    by (rule with_model_filter_raises)
  then show "translate_texts_try_except eng s U request
               = \<lparr>translations_out = texts request, error = None\<rparr>"
    by (rule try_except_answer)
next
  assume a: "translate_texts eng s U request = Inr r"
  then show r: "r = translate_texts_try_except eng s U request"
    by (simp add: translate_texts_def split: if_splits)
  from translate_texts_answered(3) [OF a] show "error r = None"
    by auto
  assume raises: "filter_loop_raises U (texts request)"
  from with_model_filter_raises [OF translate_texts_answered(2) [OF a] raises, of eng s]
    translate_texts_answered(3) [OF a]
  show "translations_out r = texts request"
    by auto
qed

text \<open>
  A target language that cannot be printed makes line 286 raise, and the \<^verbatim>\<open>try\<close>
  statement of the endpoint answers with the texts and the error; the request with the
  surrogate text is answered with its texts and no error.
\<close>

theorem error_field_from_handler_only_witness:
  "translate_texts_try_except rev_engine () sample_ucd (sample_request\<lparr>target_language := [55296]\<rparr>)
     = \<lparr>translations_out = texts sample_request, error = Some UnicodeEncodeError\<rparr>
   \<and> translate_texts_try_except rev_engine () sample_ucd (sample_request\<lparr>texts := [cp ''Hello'', [55296]]\<rparr>)
     = \<lparr>translations_out = [cp ''Hello'', [55296]], error = None\<rparr>
   \<and> translate_texts_try_except rev_engine () sample_ucd (sample_request\<lparr>texts := []\<rparr>)
     = \<lparr>translations_out = [], error = None\<rparr>"
proof -
  let ?bad = "sample_request\<lparr>target_language := [55296]\<rparr>"
  let ?sur = "sample_request\<lparr>texts := [cp ''Hello'', [55296]]\<rparr>"
  let ?emp = "sample_request\<lparr>texts := []\<rparr>"
  note T = error_field_from_handler_only [of rev_engine "()" sample_ucd]
  have 1: "translate_texts_with_model rev_engine () sample_ucd (texts ?bad) (target_language ?bad)
             = Inl UnicodeEncodeError"
    by (simp add: translate_texts_with_model_def encodable_def)
  have 2: "encodable (target_language ?sur)" "filter_loop_raises sample_ucd (texts ?sur)"
    by (simp_all add: sample_request_def cp_def strip_def isspace_def isalpha_def
                      passes_filter_def encodable_def sample_ucd_def)
  have 3: "translate_texts_with_model rev_engine () sample_ucd (texts ?emp) (target_language ?emp)
             = Inr []"
    by (simp add: translate_texts_with_model_def translate_texts_with_model_try_def
                  sample_request_def encodable_def cp_def tgt_lang_of_def valid_target_langs_def
                  tgt_lang_map_def)
  from T [of ?bad UnicodeEncodeError, THEN conjunct1, rule_format, OF 1]
    T [of ?sur, THEN conjunct2, THEN conjunct2, THEN conjunct1, rule_format, OF 2]
    T [of ?emp _ "[]", THEN conjunct2, THEN conjunct1, rule_format, OF 3]
  show ?thesis by simp
qed

lemma run_chunks_cong:
  assumes "\<forall>st batch. eng1 st batch src tgt = eng2 st batch src tgt"
  shows "run_chunks eng1 s src tgt chunks acc = run_chunks eng2 s src tgt chunks acc"
proof (induction chunks arbitrary: s acc)
  case Nil
  show ?case by simp
next
  case (Cons c cs)
  have "translate_batch_on_gpu eng1 s c src tgt = translate_batch_on_gpu eng2 s c src tgt"
    using assms by (simp add: translate_batch_on_gpu_def)
  then show ?case
    by (simp add: Cons.IH split: prod.splits)
qed

lemma printable_source_language_ignored:
  assumes "\<forall>st batch tgt. eng1 st batch (cp ''eng_Latn'') tgt = eng2 st batch (cp ''eng_Latn'') tgt"
      and "encodable l \<longleftrightarrow> encodable (source_language request)"
  shows "translate_texts eng1 s U (request\<lparr>source_language := l\<rparr>)
           = translate_texts eng2 s U request"
proof -
  have run: "run_chunks eng1 s (cp ''eng_Latn'') tgt chunks [] = run_chunks eng2 s (cp ''eng_Latn'') tgt chunks []"
    for tgt chunks
    using assms(1) by (intro run_chunks_cong) simp
  have "translate_texts_with_model_try eng1 s U ts lang
               = translate_texts_with_model_try eng2 s U ts lang" for ts lang
    by (simp add: with_model_try_unfold all_translations_def run)
  then have "translate_texts_with_model eng1 s U ts lang
               = translate_texts_with_model eng2 s U ts lang" for ts lang
    by (simp add: translate_texts_with_model_def)
  then have "translate_texts_try eng1 s U (request\<lparr>source_language := l\<rparr>)
               = translate_texts_try eng2 s U request"
    by (simp add: translate_texts_try_def)
  then have "translate_texts_try_except eng1 s U (request\<lparr>source_language := l\<rparr>)
               = translate_texts_try_except eng2 s U request"
    by (cases "translate_texts_try eng2 s U request")
       (simp_all add: translate_texts_try_except_def)
  with assms(2) show ?thesis
    by (simp add: translate_texts_def)
qed

text \<open>
  Claim C10 fails on the code. The \<^verbatim>\<open>print\<close> of line 379 writes the request's
  \<^verbatim>\<open>source_language\<close> before the \<^verbatim>\<open>try\<close>. Of two requests that differ in this field
  only, the one whose source language is a surrogate is not answered, the other is answered
  with the texts that the engine reversed.
\<close>

theorem source_language_read_by_print:
  "translate_texts rev_engine () sample_ucd (sample_request\<lparr>source_language := [55296]\<rparr>)
     = Inl UnicodeEncodeError
   \<and> translate_texts rev_engine () sample_ucd sample_request
     = Inr \<lparr>translations_out = [cp ''dlrow olleH'', cp ''123'', cp ''emocleW''], error = None\<rparr>"
proof -
  have a: "translate_texts rev_engine () sample_ucd (sample_request\<lparr>source_language := [55296]\<rparr>)
     = Inl UnicodeEncodeError"
    by (simp add: translate_texts_def encodable_def)
  let ?ts = "[cp ''  Hello world '', cp ''123'', cp ''Welcome'']"
  have lang: "tgt_lang_of (cp ''hi'') = Some (cp ''hin_Deva'')"
    by (simp add: tgt_lang_of_def valid_target_langs_def tgt_lang_map_def cp_def)
  have ne: "cp ''hin_Deva'' \<noteq> []"
    by (simp add: cp_def)
  have enc: "encodable (cp ''hi'')"
    by (simp add: encodable_def cp_def)
  have quiet: "\<not> filter_loop_raises sample_ucd ?ts"
    by (simp add: cp_def strip_def isspace_def isalpha_def passes_filter_def encodable_def
                  sample_ucd_def)
  have fl: "filter_loop sample_ucd 0 ?ts ([], []) = ([cp ''Hello world'', cp ''Welcome''], [0, 2])"
    by (simp add: cp_def strip_def isspace_def isalpha_def passes_filter_def sample_ucd_def)
  have sb: "sub_batches [cp ''Hello world'', cp ''Welcome''] 0
              = [[cp ''Hello world'', cp ''Welcome'']]"
    by (simp add: sub_batches.simps [of _ 0] sub_batches.simps [of _ 24] MODEL_BATCH_SIZE_def)
  have run: "run_chunks rev_engine () (cp ''eng_Latn'') (cp ''hin_Deva'')
               [[cp ''Hello world'', cp ''Welcome'']] []
             = [cp ''dlrow olleH'', cp ''emocleW'']"
    by (simp add: translate_batch_on_gpu_def rev_engine_def ensure_count_def cp_def)
  have rec: "reconstruct [a, b, c] (zip [0, 2] [x, y]) = Inr [x, b, y]" for a b c x y :: str
    by (simp add: numeral_2_eq_2)
  have "translate_texts_with_model_try rev_engine () sample_ucd ?ts (cp ''hi'')
        = Inr [cp ''dlrow olleH'', cp ''123'', cp ''emocleW'']"
  proof -
    have ft: "filtered_texts sample_ucd ?ts = [cp ''Hello world'', cp ''Welcome'']"
      by (simp only: filtered_texts_def fl fst_conv)
    have ti: "text_indices sample_ucd ?ts = [0, 2]"
      by (simp only: text_indices_def fl snd_conv)
    have al: "all_translations rev_engine () sample_ucd (cp ''hin_Deva'') ?ts
                = [cp ''dlrow olleH'', cp ''emocleW'']"
      by (simp only: all_translations_def ft sb run)
    show ?thesis
      by (simp only: with_model_try_unfold lang falsy.simps ne quiet ft ti al rec option.sel
                     list.distinct if_False simp_thms)
  qed
  with enc have "translate_texts_with_model rev_engine () sample_ucd ?ts (cp ''hi'')
        = Inr [cp ''dlrow olleH'', cp ''123'', cp ''emocleW'']"
    by (simp add: with_model_encodable)
  then have "translate_texts_with_model rev_engine () sample_ucd (texts sample_request)
          (target_language sample_request)
        = Inr [cp ''dlrow olleH'', cp ''123'', cp ''emocleW'']"
    by (simp add: sample_request_def)
  from try_except_answer [OF this] have "translate_texts rev_engine () sample_ucd sample_request
     = Inr \<lparr>translations_out = [cp ''dlrow olleH'', cp ''123'', cp ''emocleW''], error = None\<rparr>"
    by (simp add: translate_texts_def sample_request_def encodable_def cp_def)
  with a show ?thesis by simp
qed

lemma tgt_lang_of_nonempty:
  assumes "tgt_lang_of lang = Some t"
  shows "t \<noteq> []"
proof (cases "lang \<in> set valid_target_langs")
  case True
  with assms have "t = lang" by (simp add: tgt_lang_of_def)
  moreover have "[] \<notin> set valid_target_langs"
    by (simp add: valid_target_langs_def cp_def)
  ultimately show ?thesis using True by auto
next
  case False
  with assms have "map_of tgt_lang_map lang = Some t" by (simp add: tgt_lang_of_def)
  then have "(lang, t) \<in> set tgt_lang_map" by (rule map_of_SomeD)
  then have "t \<in> snd ` set tgt_lang_map" by force
  moreover have "[] \<notin> snd ` set tgt_lang_map"
    by (simp add: tgt_lang_map_def cp_def)
  ultimately show ?thesis by blast
qed

lemma strip_length: "length (strip U x) \<le> length (dropWhile (isspace U) x)"
  using length_dropWhile_le [of "isspace U" "rev (dropWhile (isspace U) x)"]
  by (simp add: strip_def)

lemma strip_changes:
  assumes "x \<noteq> []" and "isspace U (hd x) \<or> isspace U (last x)"
  shows "strip U x \<noteq> x"
proof
  assume eq: "strip U x = x"
  from assms(2) show False
  proof
    assume "isspace U (hd x)"
    with assms(1) have "dropWhile (isspace U) x = dropWhile (isspace U) (tl x)"
      by (cases x) simp_all
    then have "length (dropWhile (isspace U) x) \<le> length (tl x)"
      using length_dropWhile_le [of "isspace U" "tl x"] by simp
    with strip_length [of U x] eq assms(1) show False
      by (cases x) simp_all
  next
    assume sp: "isspace U (last x)"
    let ?y = "dropWhile (isspace U) (rev (dropWhile (isspace U) x))"
    from eq have r: "rev ?y = x"
      by (simp only: strip_def)
    have ne: "?y \<noteq> []"
    proof
      assume "?y = []"
      then have "rev ?y = []" by (simp only: rev.simps)
      with r have "x = []" by (simp only:)
      with assms(1) show False by (rule notE)
    qed
    then have "\<not> isspace U (hd ?y)"
      by (rule hd_dropWhile)
    moreover have "last x = hd ?y"
      using r last_rev [of ?y] by (simp only:)
    ultimately show False using sp by simp
  qed
qed

lemma translatable_nonempty: "translatable U x \<Longrightarrow> x \<noteq> []"
  by (auto simp: translatable_def passes_filter_def strip_def)

lemma resolved_fallback:
  assumes "translate_texts eng s U request = Inr r"
      and "tgt_lang_of (target_language request) = Some t"
      and "\<not> filter_loop_raises U (texts request)"
      and "i < length (texts request)"
      and "translatable U (texts request ! i)"
  shows "let ts = texts request;
             k = length (filter (translatable U) (take i ts));
             chunks = sub_batches (filtered_texts U ts) 0;
             j = k div MODEL_BATCH_SIZE;
             out = translations_out r ! i
         in text_indices U ts ! k = i
          \<and> j < length chunks
          \<and> chunks ! j ! (k mod MODEL_BATCH_SIZE) = strip U (ts ! i)
          \<and> out = chunk_slice chunks j (all_translations eng s U t ts) ! (k mod MODEL_BATCH_SIZE)
          \<and> (chunk_outcome eng s (cp ''eng_Latn'') t chunks j = Raises
                \<or> chunk_outcome eng s (cp ''eng_Latn'') t chunks j = TimesOut
              \<longrightarrow> out = strip U (ts ! i))
          \<and> (isspace U (hd (ts ! i)) \<or> isspace U (last (ts ! i)) \<longrightarrow> strip U (ts ! i) \<noteq> ts ! i)"
proof -
  define ts where "ts = texts request"
  define k where "k = length (filter (translatable U) (take i ts))"
  define flt where "flt = filtered_texts U ts"
  define chunks where "chunks = sub_batches flt 0"
  define j where "j = k div MODEL_BATCH_SIZE"
  define m where "m = k mod MODEL_BATCH_SIZE"
  define src where "src = cp ''eng_Latn''"
  define run where "run = run_chunks eng s src t chunks []"
  define out where "out = translations_out r ! i"
  from assms(4,5) have i: "i < length ts" and tr: "translatable U (ts ! i)"
    by (simp_all add: ts_def)
  have idx: "text_indices U ts ! k = i" and k_idx: "k < length (text_indices U ts)"
    using rank_lemma [of i ts "translatable U", OF i tr]
    by (simp_all add: text_indices_def text_indices_eq k_def)
  have k_flt: "k < length flt"
    using k_idx by (simp add: flt_def length_text_indices)
  have "flt = map (\<lambda>i. strip U (ts ! i)) (text_indices U ts)"
    by (simp add: flt_def filtered_texts_def text_indices_def filtered_texts_by_index [of U ts])
  with k_idx idx have flt_k: "flt ! k = strip U (ts ! i)"
    by simp
  have nth1: "j < length chunks"
    using run_chunks_nth(1) [OF k_flt] by (simp add: chunks_def j_def)
  have nth2: "m < length (chunks ! j)"
    using run_chunks_nth(2) [OF k_flt] by (simp add: chunks_def j_def m_def)
  have nth3: "chunks ! j ! m = flt ! k"
    using run_chunks_nth(3) [OF k_flt] by (simp add: chunks_def j_def m_def)
  have nth4: "run ! k = chunk_slice chunks j run ! m"
    using run_chunks_nth(4) [OF k_flt, of eng s src t] by (simp add: chunks_def j_def m_def run_def)
  from nth3 flt_k have sub: "chunks ! j ! m = strip U (ts ! i)"
    by simp
  have all: "all_translations eng s U t ts = run"
    by (simp add: all_translations_def run_def chunks_def flt_def src_def)
  have res: "\<not> falsy (tgt_lang_of (target_language request))"
    using assms(2) tgt_lang_of_nonempty [OF assms(2)] by simp
  from translate_texts_answered(3) [OF assms(1)] obtain res_list
    where wm: "translate_texts_with_model eng s U ts (target_language request) = Inr res_list"
      and r: "r = \<lparr>translations_out = res_list, error = None\<rparr>"
    unfolding ts_def by blast
  have ok: "\<not> filter_loop_raises U ts"
    using assms(3) by (simp add: ts_def)
  from with_model_resolved [OF translate_texts_answered(2) [OF assms(1)] res ok, of eng s]
    wm k_idx idx assms(2)
  have "res_list ! i = run ! k"
    by (auto simp: all)
  then have out_k: "out = run ! k"
    by (simp add: out_def r)
  with nth4 have out_slice: "out = chunk_slice chunks j run ! m"
    by simp
  have fallback: "out = strip U (ts ! i)"
    if "chunk_outcome eng s src t chunks j = Raises \<or> chunk_outcome eng s src t chunks j = TimesOut"
  proof -
    from nth2 have "chunks ! j \<noteq> []" by auto
    with that run_chunks_slice [OF nth1, of eng s src t]
    have "chunk_slice chunks j run = chunks ! j"
      by (auto simp: translate_batch_on_gpu_fst chunk_outcome_def run_def)
    with out_slice sub show ?thesis by simp
  qed
  have changed: "strip U (ts ! i) \<noteq> ts ! i"
    if "isspace U (hd (ts ! i)) \<or> isspace U (last (ts ! i))"
    using strip_changes [OF translatable_nonempty [OF tr] that] .
  from idx nth1 sub out_slice fallback changed show ?thesis
    unfolding Let_def ts_def [symmetric] k_def [symmetric] flt_def [symmetric]
      chunks_def [symmetric] j_def [symmetric] m_def [symmetric] out_def [symmetric]
      src_def [symmetric] all
    by blast
qed

text \<open>
  Claim C9, as stated, fails: the first text of this request is translatable and has a
  blank on either side, the second is one surrogate, so the \<^verbatim>\<open>print\<close> of line 339
  raises while the texts are filtered. The handler of line 370 returns the input texts, and
  the response holds the first text with its blanks.
\<close>

theorem exception_keeps_untrimmed_text:
  "translatable sample_ucd (cp '' Hello '')
   \<and> strip sample_ucd (cp '' Hello '') = cp ''Hello''
   \<and> translate_texts failing_engine () sample_ucd (sample_request\<lparr>texts := [cp '' Hello '', [55296]]\<rparr>)
       = Inr \<lparr>translations_out = [cp '' Hello '', [55296]], error = None\<rparr>"
proof -
  let ?req = "sample_request\<lparr>texts := [cp '' Hello '', [55296]]\<rparr>"
  have tr: "translatable sample_ucd (cp '' Hello '')"
    and st: "strip sample_ucd (cp '' Hello '') = cp ''Hello''"
    by (simp_all add: translatable_def passes_filter_def cp_def strip_def isspace_def isalpha_def
                      sample_ucd_def)
  have raises: "filter_loop_raises sample_ucd (texts ?req)"
    by (simp add: cp_def strip_def isspace_def isalpha_def passes_filter_def encodable_def
                  sample_ucd_def)
  have enc: "encodable (source_language ?req) \<and> encodable (target_language ?req)"
    by (simp add: sample_request_def encodable_def cp_def)
  then have "translate_texts_with_model failing_engine () sample_ucd (texts ?req) (target_language ?req)
               = Inr (texts ?req)"
    using raises by (simp add: with_model_filter_raises)
  from try_except_answer [OF this] enc tr st show ?thesis
    by (simp add: translate_texts_def)
qed

text \<open>
  Claim C9, amended. Take a request that the endpoint answers and a translatable text
  at index \<open>i\<close>, the \<open>k\<close>-th translatable text of the request. When the target
  language does not resolve, or a \<^verbatim>\<open>print\<close> of the filter loop raises, the response is
  the list of the original texts. Otherwise index \<open>i\<close> is the \<open>k\<close>-th recorded index;
  the text submitted for it, at position \<open>k mod 24\<close> of chunk \<open>k div 24\<close>, is the stripped
  text; the response holds at index \<open>i\<close> what the scheduler produced at that position of
  that chunk; and when the engine raises or times out on that chunk, this is the stripped
  text, which differs from the original text as soon as the original begins or ends with
  whitespace.
\<close>

theorem stripped_fallback_when_filtered:
  assumes "translate_texts eng s U request = Inr r"
      and "i < length (texts request)"
      and "translatable U (texts request ! i)"
  shows "(falsy (tgt_lang_of (target_language request)) \<or> filter_loop_raises U (texts request)
            \<longrightarrow> translations_out r = texts request)
       \<and> (tgt_lang_of (target_language request) = Some t
            \<longrightarrow> \<not> filter_loop_raises U (texts request)
            \<longrightarrow> (let ts = texts request;
                     k = length (filter (translatable U) (take i ts));
                     chunks = sub_batches (filtered_texts U ts) 0;
                     j = k div MODEL_BATCH_SIZE;
                     out = translations_out r ! i
                 in text_indices U ts ! k = i
                  \<and> j < length chunks
                  \<and> chunks ! j ! (k mod MODEL_BATCH_SIZE) = strip U (ts ! i)
                  \<and> out = chunk_slice chunks j (all_translations eng s U t ts)
                            ! (k mod MODEL_BATCH_SIZE)
                  \<and> (chunk_outcome eng s (cp ''eng_Latn'') t chunks j = Raises
                        \<or> chunk_outcome eng s (cp ''eng_Latn'') t chunks j = TimesOut
                      \<longrightarrow> out = strip U (ts ! i))
                  \<and> (isspace U (hd (ts ! i)) \<or> isspace U (last (ts ! i))
                      \<longrightarrow> strip U (ts ! i) \<noteq> ts ! i)))"
proof (intro conjI impI)
  assume "falsy (tgt_lang_of (target_language request)) \<or> filter_loop_raises U (texts request)"
  then have "translate_texts_with_model eng s U (texts request) (target_language request)
               = Inr (texts request)"
    using translate_texts_answered(2) [OF assms(1)]
    by (auto simp: with_model_unresolved with_model_filter_raises)
  with translate_texts_answered(3) [OF assms(1)] show "translations_out r = texts request"
    by auto
next
  assume "tgt_lang_of (target_language request) = Some t"
    and "\<not> filter_loop_raises U (texts request)"
  then show "let ts = texts request;
                 k = length (filter (translatable U) (take i ts));
                 chunks = sub_batches (filtered_texts U ts) 0;
                 j = k div MODEL_BATCH_SIZE;
                 out = translations_out r ! i
             in text_indices U ts ! k = i
              \<and> j < length chunks
              \<and> chunks ! j ! (k mod MODEL_BATCH_SIZE) = strip U (ts ! i)
              \<and> out = chunk_slice chunks j (all_translations eng s U t ts)
                        ! (k mod MODEL_BATCH_SIZE)
              \<and> (chunk_outcome eng s (cp ''eng_Latn'') t chunks j = Raises
                    \<or> chunk_outcome eng s (cp ''eng_Latn'') t chunks j = TimesOut
                  \<longrightarrow> out = strip U (ts ! i))
              \<and> (isspace U (hd (ts ! i)) \<or> isspace U (last (ts ! i))
                  \<longrightarrow> strip U (ts ! i) \<noteq> ts ! i)"
    using resolved_fallback [OF assms(1) _ _ assms(2,3)] by blast
qed

text \<open>
  The request of the scenario with an engine that always raises: the first text comes
  back without the blanks around it, and so differs from the text that was sent. With a
  surrogate as second text the request comes back as it was sent.
\<close>

theorem stripped_fallback_when_filtered_witness:
  "(\<exists>r. translate_texts failing_engine () sample_ucd sample_request = Inr r
        \<and> translations_out r ! 0 = cp ''Hello world'')
   \<and> strip sample_ucd (texts sample_request ! 0) \<noteq> texts sample_request ! 0
   \<and> (\<exists>r. translate_texts failing_engine () sample_ucd
               (sample_request\<lparr>texts := [cp '' Hello '', [55296]]\<rparr>) = Inr r
        \<and> translations_out r = [cp '' Hello '', [55296]])"
proof -
  let ?req = "sample_request\<lparr>texts := [cp '' Hello '', [55296]]\<rparr>"
  have enc: "encodable (source_language sample_request)" "encodable (target_language sample_request)"
    by (simp_all add: sample_request_def encodable_def cp_def)
  from translate_texts_answers [OF enc, of failing_engine "()" sample_ucd]
  obtain r where r: "translate_texts failing_engine () sample_ucd sample_request = Inr r"
    by blast
  have enc': "encodable (source_language ?req)" "encodable (target_language ?req)"
    using enc by simp_all
  from translate_texts_answers [OF enc', of failing_engine "()" sample_ucd]
  obtain r' where r': "translate_texts failing_engine () sample_ucd ?req = Inr r'"
    by blast
  have a: "tgt_lang_of (target_language sample_request) = Some (cp ''hin_Deva'')"
    by (simp add: sample_request_def tgt_lang_of_def valid_target_langs_def tgt_lang_map_def cp_def)
  have b: "0 < length (texts sample_request)" "0 < length (texts ?req)"
    by (simp_all add: sample_request_def)
  have c: "translatable sample_ucd (texts sample_request ! 0)"
    "translatable sample_ucd (texts ?req ! 0)"
    by (simp_all add: sample_request_def translatable_def passes_filter_def cp_def strip_def
                      isspace_def isalpha_def sample_ucd_def)
  have quiet: "\<not> filter_loop_raises sample_ucd (texts sample_request)"
    by (simp add: sample_request_def cp_def strip_def isspace_def isalpha_def passes_filter_def
                  encodable_def sample_ucd_def)
  have raises: "filter_loop_raises sample_ucd (texts ?req)"
    by (simp add: cp_def strip_def isspace_def isalpha_def passes_filter_def encodable_def
                  sample_ucd_def)
  note T = stripped_fallback_when_filtered [OF r b(1) c(1), of "cp ''hin_Deva''",
      THEN conjunct2, rule_format, OF a quiet, unfolded Let_def]
  note T' = stripped_fallback_when_filtered [OF r' b(2) c(2), THEN conjunct1, rule_format]
  have o: "chunk_outcome failing_engine () (cp ''eng_Latn'') (cp ''hin_Deva'') chunks j = Raises"
    for chunks j
    by (simp add: chunk_outcome_def failing_engine_def)
  have sp: "isspace sample_ucd (hd (texts sample_request ! 0))"
    by (simp add: sample_request_def cp_def isspace_def)
  have st: "strip sample_ucd (texts sample_request ! 0) = cp ''Hello world''"
    by (simp add: sample_request_def cp_def strip_def isspace_def sample_ucd_def)
  from T o sp have "translations_out r ! 0 = strip sample_ucd (texts sample_request ! 0)"
    and ch: "strip sample_ucd (texts sample_request ! 0) \<noteq> texts sample_request ! 0"
    by blast+
  with st have first: "translations_out r ! 0 = cp ''Hello world''"
    by simp
  from T' raises have "translations_out r' = texts ?req"
    by blast
  then have second: "translations_out r' = [cp '' Hello '', [55296]]"
    by simp
  from r first ch r' second show ?thesis
    by blast
qed

end
